theory Spec2Isabelle
  imports Complex_Main "HOL-Library.Multiset" "HOL-Library.Log_Nat"
begin

section \<open>Python floats\<close>

text \<open>
  The times of a word are Python floats: IEEE 754 binary64 numbers.  A finite float is a
  rational \<open>m * 2 ^ e\<close> with \<open>\<bar>m\<bar> \<le> 2 ^ 53\<close> and \<open>e \<ge> - 1074\<close>.  The model holds
  a time as a rational and rounds every sum of two times to such a number, to nearest
  with ties to the even significand, as the float addition does: \<open>0.1 + 0.2\<close> is not
  \<open>0.3\<close>, and a small summand is absorbed by a large one.

  Python turns a sum whose magnitude reaches \<open>2 ^ 1024\<close> into an infinity.  The model has
  no infinities: it rounds such a sum on the same grid.  Times are values of
  \<open>timedelta.total_seconds()\<close>, below \<open>2 ^ 47\<close> in magnitude.
\<close>

definition pow2 :: "int \<Rightarrow> rat" where
  "pow2 k = 2 powi k"

text \<open>Rounding to the nearest integer, a tie going to the even one.\<close>

definition round_half_even :: "rat \<Rightarrow> int" where
  "round_half_even r =
     (let n = \<lfloor>r\<rfloor>; d = r - of_int n
      in if d < 1 / 2 then n else if 1 / 2 < d then n + 1 else if even n then n else n + 1)"

text \<open>For \<open>q \<noteq> 0\<close>, the integer \<open>k\<close> with \<open>2 ^ k \<le> \<bar>q\<bar> < 2 ^ (k + 1)\<close>, found from the bit
  lengths of numerator and denominator.\<close>

definition floor_log2 :: "rat \<Rightarrow> int" where
  "floor_log2 q =
     (let (n, d) = quotient_of \<bar>q\<bar>; k = bitlen n - bitlen d
      in if pow2 k \<le> \<bar>q\<bar> then k else k - 1)"

text \<open>The exponent of the spacing of the floats around \<open>q\<close>: 53 significant bits, and the
  fixed spacing \<open>2 ^ - 1074\<close> of the subnormal numbers at the bottom.\<close>

definition ulp_exponent :: "rat \<Rightarrow> int" where
  "ulp_exponent q = (if q = 0 then - 1074 else max (floor_log2 q - 52) (- 1074))"

definition round53 :: "rat \<Rightarrow> rat" where
  "round53 q = of_int (round_half_even (q / pow2 (ulp_exponent q))) * pow2 (ulp_exponent q)"

definition is_double :: "rat \<Rightarrow> bool" where
  "is_double q \<longleftrightarrow> round53 q = q"

text \<open>The sum \<open>x + d\<close> of two floats.  A sum with zero is the other operand; on floats the
  two zero cases agree with the rounded sum, and they keep the operation the identity at
  zero on every rational.\<close>

definition float_add :: "rat \<Rightarrow> rat \<Rightarrow> rat" where
  "float_add x d = (if d = 0 then x else if x = 0 then d else round53 (x + d))"

text \<open>What determines the exponent: \<open>e\<close> is the exponent of the spacing around \<open>q\<close>.\<close>

definition exponent_ok :: "rat \<Rightarrow> int \<Rightarrow> bool" where
  "exponent_ok q e \<longleftrightarrow>
     - 1074 \<le> e \<and> \<bar>q\<bar> < pow2 (e + 53) \<and> (e = - 1074 \<or> pow2 (e + 52) \<le> \<bar>q\<bar>)"

section \<open>Transcript assembly: \<open>merge_transcript_chunks\<close>\<close>

text \<open>
  The per-chunk results of \<open>transcriber.py\<close> are Python dictionaries.  A word segment is
  the dictionary built in \<open>transcribe_audio_chunk\<close> with the keys \<open>word\<close>, \<open>start_time\<close>,
  \<open>end_time\<close> and \<open>speaker\<close>.  Times are seconds, held as floats; speaker tags and counts
  are Python integers.

  \<open>merge_transcript_chunks\<close> updates the segment dictionaries it is given in place, so
  segments live in a store: a chunk result holds the addresses of its segments, and the
  function takes the store and returns the updated one.
\<close>

record segment =
  word :: string
  start_time :: rat
  end_time :: rat
  speaker :: int

type_synonym addr = nat

type_synonym store = "addr \<Rightarrow> segment"

text \<open>A store of Python values: every time in it is a float.\<close>

definition float_store :: "store \<Rightarrow> bool" where
  "float_store h \<longleftrightarrow> (\<forall>a. is_double (start_time (h a)) \<and> is_double (end_time (h a)))"

record chunk_result =
  segments :: "addr list"
  speaker_count :: int
  transcript :: string

text \<open>The local variables of the first loop of \<open>merge_transcript_chunks\<close>.\<close>

record merge_state =
  heap :: store
  all_segments :: "addr list"
  total_duration :: rat
  max_speaker_count :: int

text \<open>The dictionary returned by \<open>merge_transcript_chunks\<close>; the field
  \<open>result_speaker_count\<close> is its key \<open>speaker_count\<close>.\<close>

record transcript_result =
  transcript_text :: string
  result_speaker_count :: int
  duration_seconds :: int

text \<open>Both \<open>+=\<close> of the inner loop, on one segment.\<close>

definition shift :: "rat \<Rightarrow> segment \<Rightarrow> segment" where
  "shift d s = s\<lparr>start_time := float_add (start_time s) d, end_time := float_add (end_time s) d\<rparr>"

text \<open>The inner loop: \<open>for segment in chunk_result["segments"]\<close>, adding the running
  total to both times of the stored segment and appending its reference.\<close>

fun adjust_segments :: "rat \<Rightarrow> addr list \<Rightarrow> store \<times> addr list \<Rightarrow> store \<times> addr list" where
  "adjust_segments d [] (h, acc) = (h, acc)"
| "adjust_segments d (a # as) (h, acc) =
     adjust_segments d as (h(a := shift d (h a)), acc @ [a])"

text \<open>\<open>max(seg["end_time"] for seg in ...)\<close> over a non-empty list, read from the store
  after the inner loop; the source guards the call with \<open>if chunk_result["segments"]\<close>.\<close>

fun max_end_time :: "store \<Rightarrow> addr \<Rightarrow> addr list \<Rightarrow> rat" where
  "max_end_time h a as = fold (\<lambda>b m. max m (end_time (h b))) as (end_time (h a))"

text \<open>One iteration of \<open>for chunk_result in chunks_results\<close>.\<close>

definition merge_chunk :: "merge_state \<Rightarrow> chunk_result \<Rightarrow> merge_state" where
  "merge_chunk st c =
     (let (h', acc') = adjust_segments (total_duration st) (segments c) (heap st, all_segments st)
      in \<lparr>heap = h',
          all_segments = acc',
          total_duration = (case segments c of [] \<Rightarrow> total_duration st
                            | a # as \<Rightarrow> max_end_time h' a as),
          max_speaker_count = max (max_speaker_count st) (speaker_count c)\<rparr>)"

fun merge_loop :: "merge_state \<Rightarrow> chunk_result list \<Rightarrow> merge_state" where
  "merge_loop st [] = st"
| "merge_loop st (c # cs) = merge_loop (merge_chunk st c) cs"

definition initial_state :: "store \<Rightarrow> merge_state" where
  "initial_state h = \<lparr>heap = h, all_segments = [], total_duration = 0, max_speaker_count = 0\<rparr>"

subsection \<open>Rendering\<close>

text \<open>Python's \<open>str\<close> of an integer, as the f-string formats the speaker tag.\<close>

definition digit_char :: "nat \<Rightarrow> char" where
  "digit_char d = ''0123456789'' ! d"

fun str_nat :: "nat \<Rightarrow> string" where
  "str_nat n = (if n < 10 then [digit_char n] else str_nat (n div 10) @ [digit_char (n mod 10)])"

declare str_nat.simps [simp del]

definition str_int :: "int \<Rightarrow> string" where
  "str_int i = (if i < 0 then CHR ''-'' # str_nat (nat (- i)) else str_nat (nat i))"

definition speaker_label :: "int \<Rightarrow> string" where
  "speaker_label n = ''Speaker '' @ str_int n @ '': ''"

text \<open>The second loop, over the sorted segments; the state is \<open>transcript_text\<close> and
  \<open>current_speaker\<close> (\<open>None\<close> before the first word).\<close>

fun render_loop :: "segment list \<Rightarrow> string \<times> int option \<Rightarrow> string \<times> int option" where
  "render_loop [] (t, cur) = (t, cur)"
| "render_loop (s # ss) (t, cur) =
     (if Some (speaker s) \<noteq> cur
      then render_loop ss
             ((if cur \<noteq> None then t @ [CHR 0x0A] else t) @ speaker_label (speaker s) @ word s @ '' '',
              Some (speaker s))
      else render_loop ss (t @ word s @ '' '', cur))"

text \<open>\<open>str.strip()\<close>: leading and trailing whitespace removed.  The characters are the
  code points below 256 that Python's \<open>str.isspace\<close> accepts.\<close>

definition is_space :: "char \<Rightarrow> bool" where
  "is_space c = (c \<in> set [CHR 0x09, CHR 0x0A, CHR 0x0B, CHR 0x0C, CHR 0x0D,
                           CHR 0x1C, CHR 0x1D, CHR 0x1E, CHR 0x1F, CHR 0x20,
                           CHR 0x85, CHR 0xA0])"

definition strip :: "string \<Rightarrow> string" where
  "strip s = dropWhile is_space (rev (dropWhile is_space (rev s)))"

text \<open>\<open>int(total_duration)\<close>: truncation towards zero.\<close>

definition py_int :: "rat \<Rightarrow> int" where
  "py_int q = (if 0 \<le> q then \<lfloor>q\<rfloor> else \<lceil>q\<rceil>)"

text \<open>The whole function.  \<open>sorted\<close> with a key is stable, as \<open>sort_key\<close> is.  No statement of
  the body raises on segments and chunk results of the shape above, so the handler that
  logs and re-raises is never entered and the function returns a value.\<close>

definition merge_transcript_chunks :: "store \<Rightarrow> chunk_result list \<Rightarrow> store \<times> transcript_result" where
  "merge_transcript_chunks h chunks_results =
     (let st = merge_loop (initial_state h) chunks_results;
          ordered = sort_key (\<lambda>a. start_time (heap st a)) (all_segments st);
          (text, cur) = render_loop (map (heap st) ordered) ([], None)
      in (heap st,
          \<lparr>transcript_text = strip text,
           result_speaker_count = max_speaker_count st,
           duration_seconds = py_int (total_duration st)\<rparr>))"

text \<open>The value of \<open>total_duration\<close> when the outer loop reaches the chunk at index \<open>i\<close>,
  that is, after the first \<open>i\<close> chunk results have been processed.\<close>

definition timeline_offset :: "store \<Rightarrow> chunk_result list \<Rightarrow> nat \<Rightarrow> rat" where
  "timeline_offset h cs i = total_duration (merge_loop (initial_state h) (take i cs))"

text \<open>The rendering described in words: the walked sequence is cut into speaker turns
  (maximal runs of adjacent words with one tag), a turn is its label followed by its words,
  each word followed by one space, and the turns are joined by newlines.\<close>

fun turns :: "segment list \<Rightarrow> (int \<times> string list) list" where
  "turns [] = []"
| "turns (s # ss) =
     (case turns ss of
        [] \<Rightarrow> [(speaker s, [word s])]
      | (n, ws) # ts \<Rightarrow>
          if n = speaker s then (n, word s # ws) # ts
          else (speaker s, [word s]) # (n, ws) # ts)"

definition render_turn :: "int \<times> string list \<Rightarrow> string" where
  "render_turn t = speaker_label (fst t) @ concat (map (\<lambda>w. w @ '' '') (snd t))"

fun join_with :: "string \<Rightarrow> string list \<Rightarrow> string" where
  "join_with sep [] = []"
| "join_with sep [x] = x"
| "join_with sep (x # y # ys) = x @ sep @ join_with sep (y # ys)"

definition render_turns :: "(int \<times> string list) list \<Rightarrow> string" where
  "render_turns ts = join_with [CHR 0x0A] (map render_turn ts)"

text \<open>The rendering as the specification words it: the words of a turn joined by single
  spaces, the turns joined by newlines.\<close>

definition joined_turn :: "int \<times> string list \<Rightarrow> string" where
  "joined_turn t = ''Speaker '' @ str_int (fst t) @ '': '' @ join_with '' '' (snd t)"

definition joined_text :: "segment list \<Rightarrow> string" where
  "joined_text ss = join_with [CHR 0x0A] (map joined_turn (turns ss))"

section \<open>Audio segmentation: \<open>convert_and_split_audio\<close>\<close>

text \<open>
  Everything outside the repository is a parameter, collected in one record: the storage
  upload, pydub's decoding and normalisation (\<open>AudioSegment.from_file\<close> followed by
  \<open>set_frame_rate(16000).set_channels(1)\<close>), pydub's \<open>split_on_silence\<close> with the arguments
  the source passes, the FLAC export, and the speech service.  Calls that can raise return
  a sum.

  An \<open>AudioSegment\<close> is modelled at the resolution pydub measures it in: a list with one
  element per millisecond, so that \<open>len\<close> is \<open>length\<close>, \<open>+=\<close> is \<open>@\<close> and
  \<open>AudioSegment.empty()\<close> is \<open>[]\<close>.
\<close>

datatype error = ServiceError string | IndexError

record word_info =
  wi_word :: string
  wi_start_time :: rat
  wi_end_time :: rat
  speaker_tag :: int

text \<open>A recognition response: its results, each a list of alternatives, each a list of
  words.\<close>

type_synonym response = "word_info list list list"

record ('f, 'a, 'b) externals =
  gcs_bucket_name :: string
  uuid4 :: string
  upload_from_file :: "'f \<Rightarrow> string \<Rightarrow> error option"
  decode :: "'f \<Rightarrow> error + 'a list"
  split_on_silence :: "'a list \<Rightarrow> 'a list list"
  export_flac :: "'a list \<Rightarrow> 'b"
  recognize :: "'b \<Rightarrow> string \<Rightarrow> error + response"

definition MAX_CHUNK_DURATION_MS :: nat where
  "MAX_CHUNK_DURATION_MS = 5 * 60 * 1000"

text \<open>The grouping loop \<open>for chunk in audio_chunks\<close>; the state is \<open>current_chunk\<close> and
  the list \<open>chunks\<close> of exported chunks.\<close>

fun group_loop :: "('a list \<Rightarrow> 'b) \<Rightarrow> 'a list list \<Rightarrow> 'a list \<times> 'b list \<Rightarrow> 'a list \<times> 'b list" where
  "group_loop export [] (current_chunk, chunks) = (current_chunk, chunks)"
| "group_loop export (chunk # rest) (current_chunk, chunks) =
     (if length current_chunk + length chunk \<le> MAX_CHUNK_DURATION_MS
      then group_loop export rest (current_chunk @ chunk, chunks)
      else group_loop export rest
             (chunk, if length current_chunk > 0 then chunks @ [export current_chunk] else chunks))"

text \<open>The \<open>else\<close> branch of \<open>convert_and_split_audio\<close>: the loop and the remaining chunk.\<close>

definition group_chunks :: "('a list \<Rightarrow> 'b) \<Rightarrow> 'a list list \<Rightarrow> 'b list" where
  "group_chunks export audio_chunks =
     (let (current_chunk, chunks) = group_loop export audio_chunks ([], [])
      in if length current_chunk > 0 then chunks @ [export current_chunk] else chunks)"

definition convert_and_split_audio :: "('f, 'a, 'b) externals \<Rightarrow> 'f \<Rightarrow> error + 'b list" where
  "convert_and_split_audio env audio_file =
     (case decode env audio_file of
        Inl e \<Rightarrow> Inl e
      | Inr audio \<Rightarrow>
          Inr (if length audio \<le> MAX_CHUNK_DURATION_MS
               then [export_flac env audio]
               else group_chunks (export_flac env) (split_on_silence env audio)))"

section \<open>The pipeline: \<open>transcribe_audio_file\<close>\<close>

definition upload_audio_to_gcs :: "('f, 'a, 'b) externals \<Rightarrow> 'f \<Rightarrow> string \<Rightarrow> error + string" where
  "upload_audio_to_gcs env audio_file filename =
     (let blob_name = ''audio/'' @ uuid4 env @ ''/'' @ filename
      in case upload_from_file env audio_file blob_name of
           Some e \<Rightarrow> Inl e
         | None \<Rightarrow> Inr (''gs://'' @ gcs_bucket_name env @ ''/'' @ blob_name))"

text \<open>Each segment dictionary built by \<open>transcribe_audio_chunk\<close> is a new object: it is
  stored at the next free address.\<close>

record pystate =
  objects :: store
  next_addr :: addr

definition segment_of :: "word_info \<Rightarrow> segment" where
  "segment_of w = \<lparr>word = wi_word w, start_time = wi_start_time w,
                   end_time = wi_end_time w, speaker = speaker_tag w\<rparr>"

text \<open>The loop \<open>for word_info in alternative.words\<close>; the state is the object store, the
  list \<open>segments\<close> and \<open>speaker_count\<close> (here \<open>n_speakers\<close>).\<close>

fun collect_words :: "word_info list \<Rightarrow> pystate \<times> addr list \<times> int \<Rightarrow> pystate \<times> addr list \<times> int" where
  "collect_words [] (st, segs, n_speakers) = (st, segs, n_speakers)"
| "collect_words (w # ws) (st, segs, n_speakers) =
     collect_words ws
       (st\<lparr>objects := (objects st)(next_addr st := segment_of w), next_addr := Suc (next_addr st)\<rparr>,
        segs @ [next_addr st],
        if speaker_tag w > n_speakers then speaker_tag w else n_speakers)"

text \<open>The loop \<open>for result in response.results\<close>; \<open>result.alternatives[0]\<close> raises
  \<open>IndexError\<close> on a result without alternatives.\<close>

fun collect_results :: "response \<Rightarrow> pystate \<times> addr list \<times> int \<Rightarrow> error + pystate \<times> addr list \<times> int" where
  "collect_results [] s = Inr s"
| "collect_results (alternatives # rest) s =
     (case alternatives of
        [] \<Rightarrow> Inl IndexError
      | alternative # _ \<Rightarrow> collect_results rest (collect_words alternative s))"

definition transcribe_audio_chunk ::
  "('f, 'a, 'b) externals \<Rightarrow> 'b \<Rightarrow> string \<Rightarrow> pystate \<Rightarrow> error + chunk_result \<times> pystate" where
  "transcribe_audio_chunk env audio_chunk language st =
     (case recognize env audio_chunk language of
        Inl e \<Rightarrow> Inl e
      | Inr response \<Rightarrow>
          (case collect_results response (st, [], 0) of
             Inl e \<Rightarrow> Inl e
           | Inr (st', segs, n_speakers) \<Rightarrow>
               Inr (\<lparr>segments = segs, speaker_count = n_speakers,
                     transcript = join_with '' '' (map (\<lambda>a. word (objects st' a)) segs)\<rparr>, st')))"

text \<open>The loop \<open>for i, chunk in enumerate(audio_chunks)\<close>: an exception of one call ends
  the loop and the function.\<close>

fun transcribe_chunks ::
  "('f, 'a, 'b) externals \<Rightarrow> string \<Rightarrow> 'b list \<Rightarrow> chunk_result list \<times> pystate
     \<Rightarrow> error + chunk_result list \<times> pystate" where
  "transcribe_chunks env language [] (chunk_results, st) = Inr (chunk_results, st)"
| "transcribe_chunks env language (chunk # rest) (chunk_results, st) =
     (case transcribe_audio_chunk env chunk language st of
        Inl e \<Rightarrow> Inl e
      | Inr (result, st') \<Rightarrow> transcribe_chunks env language rest (chunk_results @ [result], st'))"

text \<open>The result is the dictionary of \<open>merge_transcript_chunks\<close> with the key \<open>gcs_uri\<close>
  added, here a pair.  Every handler of the file logs and re-raises, so an error is passed
  on unchanged.\<close>

definition transcribe_audio_file ::
  "('f, 'a, 'b) externals \<Rightarrow> 'f \<Rightarrow> string \<Rightarrow> string \<Rightarrow> pystate
     \<Rightarrow> error + (transcript_result \<times> string) \<times> pystate" where
  "transcribe_audio_file env audio_file language original_filename st =
     (case upload_audio_to_gcs env audio_file original_filename of
        Inl e \<Rightarrow> Inl e
      | Inr gcs_uri \<Rightarrow>
          (case convert_and_split_audio env audio_file of
             Inl e \<Rightarrow> Inl e
           | Inr audio_chunks \<Rightarrow>
               (case transcribe_chunks env language audio_chunks ([], st) of
                  Inl e \<Rightarrow> Inl e
                | Inr (chunk_results, st') \<Rightarrow>
                    (let (h, final_result) = merge_transcript_chunks (objects st') chunk_results
                     in Inr ((final_result, gcs_uri), st'\<lparr>objects := h\<rparr>)))))"

section \<open>Example inputs\<close>

text \<open>Concrete inputs on which the theorems below are instantiated.  \<open>store_of\<close> lays a
  list of segments out at the addresses \<open>0, 1, \<dots>\<close>.\<close>

definition empty_segment :: segment where
  "empty_segment = \<lparr>word = [], start_time = 0, end_time = 0, speaker = 0\<rparr>"

definition store_of :: "segment list \<Rightarrow> store" where
  "store_of xs a = (if a < length xs then xs ! a else empty_segment)"

text \<open>Two chunk results: the first ends with speaker 2, the second starts with speaker 1.\<close>

definition example_store :: store where
  "example_store = store_of
     [\<lparr>word = ''good'', start_time = 0, end_time = 1, speaker = 2\<rparr>,
      \<lparr>word = ''morning'', start_time = 1, end_time = 5 / 2, speaker = 2\<rparr>,
      \<lparr>word = ''hello'', start_time = 0, end_time = 2, speaker = 1\<rparr>]"

definition example_chunks :: "chunk_result list" where
  "example_chunks =
     [\<lparr>segments = [0, 1], speaker_count = 2, transcript = ''good morning''\<rparr>,
      \<lparr>segments = [2], speaker_count = 1, transcript = ''hello''\<rparr>]"

text \<open>A chunk result whose first word ends after its last word, followed by a chunk result
  whose first word starts at 0.\<close>

definition overlap_store :: store where
  "overlap_store = store_of
     [\<lparr>word = ''yes'', start_time = 0, end_time = 5, speaker = 1\<rparr>,
      \<lparr>word = ''no'', start_time = 1, end_time = 2, speaker = 2\<rparr>,
      \<lparr>word = ''well'', start_time = 0, end_time = 1, speaker = 1\<rparr>]"

definition overlap_A :: chunk_result where
  "overlap_A = \<lparr>segments = [0, 1], speaker_count = 2, transcript = ''yes no''\<rparr>"

definition overlap_B :: chunk_result where
  "overlap_B = \<lparr>segments = [2], speaker_count = 1, transcript = ''well''\<rparr>"

text \<open>Chunk results without words, reporting 2, 5 and 3 speakers.\<close>

definition counted_chunks :: "chunk_result list" where
  "counted_chunks =
     [\<lparr>segments = [], speaker_count = 2, transcript = []\<rparr>,
      \<lparr>segments = [], speaker_count = 5, transcript = []\<rparr>,
      \<lparr>segments = [], speaker_count = 3, transcript = []\<rparr>]"


text \<open>Four chunk results of one word each, the words ending at the floats \<open>0.1\<close>, \<open>0.5\<close>,
  \<open>0.3\<close> and \<open>0.1\<close>: the exact sum of the ends is 1, the float sum is below 1.\<close>

definition tenth_store :: store where
  "tenth_store = store_of
     [\<lparr>word = ''one'', start_time = 0, end_time = round53 (1 / 10), speaker = 1\<rparr>,
      \<lparr>word = ''two'', start_time = 0, end_time = round53 (1 / 2), speaker = 1\<rparr>,
      \<lparr>word = ''three'', start_time = 0, end_time = round53 (3 / 10), speaker = 1\<rparr>,
      \<lparr>word = ''four'', start_time = 0, end_time = round53 (1 / 10), speaker = 1\<rparr>]"

definition tenth_chunks :: "chunk_result list" where
  "tenth_chunks =
     [\<lparr>segments = [0], speaker_count = 1, transcript = ''one''\<rparr>,
      \<lparr>segments = [1], speaker_count = 1, transcript = ''two''\<rparr>,
      \<lparr>segments = [2], speaker_count = 1, transcript = ''three''\<rparr>,
      \<lparr>segments = [3], speaker_count = 1, transcript = ''four''\<rparr>]"



text \<open>External collaborators.  In \<open>example_env\<close> the file is the decoded audio itself, the
  export is the identity, and \<open>split_on_silence\<close> finds no silence and returns the whole
  recording as one segment, as pydub does for continuous speech.\<close>

definition example_env :: "(int list, int, int list) externals" where
  "example_env =
     \<lparr>gcs_bucket_name = ''meeting-transcription-audio'',
      uuid4 = ''6f1c'',
      upload_from_file = (\<lambda>f name. None),
      decode = (\<lambda>f. Inr f),
      split_on_silence = (\<lambda>audio. [audio]),
      export_flac = (\<lambda>audio. audio),
      recognize = (\<lambda>chunk language. Inr [])\<rparr>"

text \<open>Recordings, one sample per millisecond, \<open>1\<close> for speech and \<open>0\<close> for silence:
  one second of speech; five minutes and one millisecond of continuous speech; and
  99.5 seconds of speech, a pause of 101 seconds and 99.501 seconds of speech.  For the last
  one, \<open>split_on_silence\<close> with \<open>keep_silence=500\<close> returns the two spoken parts with
  half a second of the pause kept on each side, which is what \<open>pause_env\<close> returns.\<close>

definition short_recording :: "int list" where
  "short_recording = replicate 1000 1"


definition speech_recording :: "int list" where
  "speech_recording = replicate 300001 1"

definition pause_recording :: "int list" where
  "pause_recording = replicate 99500 1 @ replicate 101000 0 @ replicate 99501 1"

definition pause_env :: "(int list, int, int list) externals" where
  "pause_env = example_env\<lparr>split_on_silence := (\<lambda>audio. [take 100000 audio, drop 200000 audio])\<rparr>"

text \<open>A recording of 400 seconds that \<open>split_on_silence\<close> cuts into parts of 250 and 150
  seconds, and a speech service that rejects the second part.\<close>

definition long_recording :: "int list" where
  "long_recording = replicate 400000 1"

definition hello_word :: word_info where
  "hello_word = \<lparr>wi_word = ''hello'', wi_start_time = 0, wi_end_time = 1 / 2, speaker_tag = 1\<rparr>"

definition reject_env :: "(int list, int, int list) externals" where
  "reject_env = example_env
     \<lparr>split_on_silence := (\<lambda>audio. [take 250000 audio, drop 250000 audio]),
      recognize := (\<lambda>chunk language.
         if length chunk = 150000 then Inl (ServiceError ''RemoteRejected'')
         else Inr [[[hello_word]]])\<rparr>"

definition start_state :: pystate where
  "start_state = \<lparr>objects = (\<lambda>a. empty_segment), next_addr = 0\<rparr>"


text \<open>A speech service that returns two results, the second with two alternatives, and the
  object store after the three words of its first alternatives have been stored.\<close>

definition meeting_env :: "(int list, int, int list) externals" where
  "meeting_env = example_env
     \<lparr>recognize := (\<lambda>chunk language.
         Inr [[[\<lparr>wi_word = ''good'', wi_start_time = 0, wi_end_time = 1, speaker_tag = 2\<rparr>,
                \<lparr>wi_word = ''morning'', wi_start_time = 1, wi_end_time = 5 / 2, speaker_tag = 2\<rparr>]],
              [[\<lparr>wi_word = ''hello'', wi_start_time = 3, wi_end_time = 15 / 4, speaker_tag = 1\<rparr>], []]])\<rparr>"


definition meeting_objects :: store where
  "meeting_objects = (\<lambda>a. empty_segment)
     (0 := \<lparr>word = ''good'', start_time = 0, end_time = 1, speaker = 2\<rparr>,
      1 := \<lparr>word = ''morning'', start_time = 1, end_time = 5 / 2, speaker = 2\<rparr>,
      2 := \<lparr>word = ''hello'', start_time = 3, end_time = 15 / 4, speaker = 1\<rparr>)"

section \<open>Properties of the float arithmetic\<close>

text \<open>Rounding is monotone and leaves a float as it is; the rounded value is a float, and no
  float is nearer to the exact value.  Hence a float sum is not below an operand when the
  other operand is not negative, and it is the exact sum when that is a float.\<close>

lemma pow2_pos [simp]: "0 < pow2 k"
  by (simp add: pow2_def)

lemma pow2_add: "pow2 (a + b) = pow2 a * pow2 b"
  by (simp add: pow2_def power_int_add)

lemma pow2_mono: "a \<le> b \<Longrightarrow> pow2 a \<le> pow2 b"
  by (simp add: pow2_def power_int_increasing)

lemma pow2_strict_mono: "a < b \<Longrightarrow> pow2 a < pow2 b"
  by (simp add: pow2_def power_int_strict_increasing)

lemma pow2_nat: "0 \<le> k \<Longrightarrow> pow2 k = 2 ^ nat k"
  by (simp add: pow2_def power_int_nonneg_exp)

lemma round_half_even_bounds:
  "\<lfloor>r\<rfloor> \<le> round_half_even r \<and> round_half_even r \<le> \<lfloor>r\<rfloor> + 1"
  by (simp add: round_half_even_def Let_def)

lemma round_half_even_of_int [simp]: "round_half_even (of_int n) = n"
  by (simp add: round_half_even_def Let_def)

lemma round_half_even_mono:
  assumes "r \<le> s"
  shows "round_half_even r \<le> round_half_even s"
proof (cases "\<lfloor>r\<rfloor> = \<lfloor>s\<rfloor>")
  case True
  from assms have "r - of_int \<lfloor>r\<rfloor> \<le> s - of_int \<lfloor>r\<rfloor>" by simp
  then show ?thesis
    by (simp add: round_half_even_def Let_def True [symmetric])
next
  case False
  with assms have "\<lfloor>r\<rfloor> < \<lfloor>s\<rfloor>"
    by (meson floor_mono order_le_imp_less_or_eq)
  then have "\<lfloor>r\<rfloor> + 1 \<le> \<lfloor>s\<rfloor>" by simp
  with round_half_even_bounds [of r] round_half_even_bounds [of s] show ?thesis
    by linarith
qed

lemma round_half_even_le: "r \<le> of_int n \<Longrightarrow> round_half_even r \<le> n"
  using round_half_even_mono [of r "of_int n"] by simp

lemma round_half_even_ge: "of_int n \<le> r \<Longrightarrow> n \<le> round_half_even r"
  using round_half_even_mono [of "of_int n" r] by simp

lemma bitlen_pow2_bounds:
  assumes "0 < n"
  shows "pow2 (bitlen n - 1) \<le> of_int n" and "of_int n < pow2 (bitlen n)"
proof -
  from assms have b: "1 \<le> bitlen n"
    using bitlen_eq_zero_iff [of n] bitlen_nonneg [of n] by linarith
  from bitlen_bounds [OF assms]
  have l: "2 ^ nat (bitlen n - 1) \<le> n" and u: "n < 2 ^ nat (bitlen n)" by simp_all
  from l have "(of_int (2 ^ nat (bitlen n - 1)) :: rat) \<le> of_int n"
    by (simp only: of_int_le_iff)
  then show "pow2 (bitlen n - 1) \<le> of_int n"
    using b by (simp add: pow2_nat)
  from u have "(of_int n :: rat) < of_int (2 ^ nat (bitlen n))"
    by (simp only: of_int_less_iff)
  then show "of_int n < pow2 (bitlen n)"
    using b by (simp add: pow2_nat)
qed

lemma floor_log2_bounds:
  assumes "q \<noteq> 0"
  shows "pow2 (floor_log2 q) \<le> \<bar>q\<bar>" and "\<bar>q\<bar> < pow2 (floor_log2 q + 1)"
proof -
  obtain n d where nd: "quotient_of \<bar>q\<bar> = (n, d)" by (cases "quotient_of \<bar>q\<bar>")
  then have d: "0 < d" by (rule quotient_of_denom_pos)
  from nd have q: "\<bar>q\<bar> = of_int n / of_int d" by (rule quotient_of_div)
  from assms have "0 < \<bar>q\<bar>" by simp
  with q d have n: "0 < n" by (simp add: zero_less_divide_iff)
  let ?k = "bitlen n - bitlen d"
  note bn = bitlen_pow2_bounds [OF n] and bd = bitlen_pow2_bounds [OF d]
  have dpos: "(0::rat) < of_int d" using d by simp
  have "pow2 (?k - 1) * of_int d < pow2 (?k - 1) * pow2 (bitlen d)"
    using bd(2) by simp
  also have "\<dots> = pow2 (bitlen n - 1)"
    by (simp add: pow2_add [symmetric])
  also have "\<dots> \<le> of_int n" by (rule bn(1))
  finally have lo: "pow2 (?k - 1) < \<bar>q\<bar>"
    using dpos by (simp add: q pos_less_divide_eq)
  have "of_int n < pow2 (bitlen n)" by (rule bn(2))
  also have "\<dots> = pow2 (?k + 1) * pow2 (bitlen d - 1)"
    by (simp add: pow2_add [symmetric])
  also have "\<dots> \<le> pow2 (?k + 1) * of_int d"
    using bd(1) by simp
  finally have hi: "\<bar>q\<bar> < pow2 (?k + 1)"
    using dpos by (simp add: q pos_divide_less_eq)
  have f: "floor_log2 q = (if pow2 ?k \<le> \<bar>q\<bar> then ?k else ?k - 1)"
    by (simp add: floor_log2_def nd Let_def)
  show "pow2 (floor_log2 q) \<le> \<bar>q\<bar>"
    using lo by (simp add: f)
  show "\<bar>q\<bar> < pow2 (floor_log2 q + 1)"
    using hi by (simp add: f)
qed

lemma ulp_exponent_ok: "exponent_ok q (ulp_exponent q)"
proof (cases "q = 0")
  case True
  then show ?thesis by (simp add: exponent_ok_def ulp_exponent_def)
next
  case False
  note b = floor_log2_bounds [OF False]
  show ?thesis
  proof (cases "- 1074 \<le> floor_log2 q - 52")
    case True
    then have e: "ulp_exponent q = floor_log2 q - 52"
      using False by (simp add: ulp_exponent_def)
    have "floor_log2 q - 52 + 53 = floor_log2 q + 1" and "floor_log2 q - 52 + 52 = floor_log2 q"
      by simp_all
    with b True show ?thesis
      by (simp only: exponent_ok_def e simp_thms)
  next
    case f: False
    then have e: "ulp_exponent q = - 1074"
      using False by (simp add: ulp_exponent_def)
    from f have "floor_log2 q + 1 \<le> - 1074 + 53" by simp
    then have "pow2 (floor_log2 q + 1) \<le> pow2 (- 1074 + 53)" by (rule pow2_mono)
    with b(2) show ?thesis
      by (simp add: exponent_ok_def e)
  qed
qed

lemma exponent_ok_unique:
  assumes "exponent_ok q e" and "exponent_ok q e'"
  shows "e = e'"
proof -
  have "\<not> e < e'" if a: "exponent_ok q e" and b: "exponent_ok q e'" for e e'
  proof
    assume l: "e < e'"
    with a have "e' \<noteq> - 1074" by (simp add: exponent_ok_def)
    with b have "pow2 (e' + 52) \<le> \<bar>q\<bar>" by (simp add: exponent_ok_def)
    moreover from a have "\<bar>q\<bar> < pow2 (e + 53)" by (simp add: exponent_ok_def)
    moreover from l have "pow2 (e + 53) \<le> pow2 (e' + 52)" by (intro pow2_mono) simp
    ultimately show False by simp
  qed
  from this [OF assms] this [OF assms(2,1)] show ?thesis by simp
qed

lemma ulp_exponent_eqI: "exponent_ok q e \<Longrightarrow> ulp_exponent q = e"
  using exponent_ok_unique [OF ulp_exponent_ok] by simp

lemma ulp_exponent_abs_mono:
  assumes "\<bar>x\<bar> \<le> \<bar>y\<bar>"
  shows "ulp_exponent x \<le> ulp_exponent y"
proof (rule ccontr)
  assume "\<not> ulp_exponent x \<le> ulp_exponent y"
  then have l: "ulp_exponent y < ulp_exponent x" by simp
  note ox = ulp_exponent_ok [of x] and oy = ulp_exponent_ok [of y]
  from l oy have "ulp_exponent x \<noteq> - 1074" by (simp add: exponent_ok_def)
  with ox have "pow2 (ulp_exponent x + 52) \<le> \<bar>x\<bar>" by (simp add: exponent_ok_def)
  moreover from oy have "\<bar>y\<bar> < pow2 (ulp_exponent y + 53)" by (simp add: exponent_ok_def)
  moreover from l have "pow2 (ulp_exponent y + 53) \<le> pow2 (ulp_exponent x + 52)"
    by (intro pow2_mono) simp
  ultimately show False using assms by simp
qed

lemma pow2_53: "pow2 (e + 53) = pow2 e * 2 ^ 53"
  by (simp add: pow2_add pow2_nat)

lemma pow2_52: "pow2 (e + 52) = pow2 e * 2 ^ 52"
  by (simp add: pow2_add pow2_nat)

lemma pow2_nonneg [simp]: "0 \<le> pow2 k"
  using pow2_pos [of k] by (rule less_imp_le)

lemma pow2_neq_0 [simp]: "pow2 k \<noteq> 0"
  using pow2_pos [of k] by (rule less_imp_neq [symmetric])

lemma scale_mono: "(a::rat) \<le> b \<Longrightarrow> a * pow2 e \<le> b * pow2 e"
  by (rule mult_right_mono) simp_all

lemma round_half_even_0 [simp]: "round_half_even 0 = 0"
  using round_half_even_of_int [of 0] by simp

lemma round53_0 [simp]: "round53 0 = 0"
  by (simp add: round53_def)

lemma round53_nonneg: "0 \<le> q \<Longrightarrow> 0 \<le> round53 q"
proof -
  assume "0 \<le> q"
  then have "of_int 0 \<le> q / pow2 (ulp_exponent q)" by (simp add: zero_le_divide_iff)
  then have "0 \<le> round_half_even (q / pow2 (ulp_exponent q))" by (rule round_half_even_ge)
  then show ?thesis by (simp add: round53_def)
qed

lemma round53_nonpos: "q \<le> 0 \<Longrightarrow> round53 q \<le> 0"
proof -
  assume "q \<le> 0"
  then have "q / pow2 (ulp_exponent q) \<le> of_int 0" by (simp add: divide_le_0_iff)
  then have "round_half_even (q / pow2 (ulp_exponent q)) \<le> 0" by (rule round_half_even_le)
  then show ?thesis by (simp add: round53_def mult_le_0_iff)
qed

lemma significand_le:
  "round_half_even (q / pow2 (ulp_exponent q)) \<le> 2 ^ 53"
proof -
  from ulp_exponent_ok [of q] have "\<bar>q\<bar> < pow2 (ulp_exponent q) * 2 ^ 53"
    by (simp add: exponent_ok_def pow2_53)
  then have "q < 2 ^ 53 * pow2 (ulp_exponent q)" by (simp add: mult.commute)
  then have "q / pow2 (ulp_exponent q) \<le> of_int (2 ^ 53)"
    by (simp add: pos_divide_le_eq)
  then show ?thesis by (rule round_half_even_le)
qed

lemma significand_ge:
  "- (2 ^ 53) \<le> round_half_even (q / pow2 (ulp_exponent q))"
proof -
  from ulp_exponent_ok [of q] have "\<bar>q\<bar> < pow2 (ulp_exponent q) * 2 ^ 53"
    by (simp add: exponent_ok_def pow2_53)
  then have "- (2 ^ 53) * pow2 (ulp_exponent q) < q" by (simp add: mult.commute)
  then have "of_int (- (2 ^ 53)) \<le> q / pow2 (ulp_exponent q)"
    by (simp add: pos_le_divide_eq)
  then show ?thesis by (rule round_half_even_ge)
qed

lemma significand_normal_pos:
  assumes "0 < q" and "ulp_exponent q \<noteq> - 1074"
  shows "2 ^ 52 \<le> round_half_even (q / pow2 (ulp_exponent q))"
proof -
  from ulp_exponent_ok [of q] assms have "pow2 (ulp_exponent q) * 2 ^ 52 \<le> q"
    by (simp add: exponent_ok_def pow2_52)
  then have "of_int (2 ^ 52) \<le> q / pow2 (ulp_exponent q)"
    by (simp add: pos_le_divide_eq mult.commute)
  then show ?thesis by (rule round_half_even_ge)
qed

lemma significand_normal_neg:
  assumes "q < 0" and "ulp_exponent q \<noteq> - 1074"
  shows "round_half_even (q / pow2 (ulp_exponent q)) \<le> - (2 ^ 52)"
proof -
  from ulp_exponent_ok [of q] assms have "pow2 (ulp_exponent q) * 2 ^ 52 \<le> - q"
    by (simp add: exponent_ok_def pow2_52)
  then have "q / pow2 (ulp_exponent q) \<le> of_int (- (2 ^ 52))"
    by (simp add: pos_divide_le_eq mult.commute)
  then show ?thesis by (rule round_half_even_le)
qed

lemma round53_le_binade: "round53 q \<le> pow2 (ulp_exponent q + 53)"
proof -
  have "(of_int (round_half_even (q / pow2 (ulp_exponent q))) :: rat) \<le> of_int (2 ^ 53)"
    using significand_le [of q] by (simp only: of_int_le_iff)
  then have "of_int (round_half_even (q / pow2 (ulp_exponent q))) * pow2 (ulp_exponent q)
      \<le> of_int (2 ^ 53) * pow2 (ulp_exponent q)"
    by (rule scale_mono)
  also have "\<dots> = pow2 (ulp_exponent q + 53)" by (simp add: pow2_53)
  finally show ?thesis by (simp only: round53_def)
qed

lemma round53_ge_binade: "- pow2 (ulp_exponent q + 53) \<le> round53 q"
proof -
  have "- pow2 (ulp_exponent q + 53) = of_int (- (2 ^ 53)) * pow2 (ulp_exponent q)"
    by (simp add: pow2_53)
  also have "(of_int (- (2 ^ 53)) :: rat) \<le> of_int (round_half_even (q / pow2 (ulp_exponent q)))"
    using significand_ge [of q] by (simp only: of_int_le_iff)
  then have "of_int (- (2 ^ 53)) * pow2 (ulp_exponent q)
      \<le> of_int (round_half_even (q / pow2 (ulp_exponent q))) * pow2 (ulp_exponent q)"
    by (rule scale_mono)
  finally show ?thesis by (simp only: round53_def)
qed

lemma round53_ge_normal:
  assumes "0 < q" and "ulp_exponent q \<noteq> - 1074"
  shows "pow2 (ulp_exponent q + 52) \<le> round53 q"
proof -
  have "pow2 (ulp_exponent q + 52) = of_int (2 ^ 52) * pow2 (ulp_exponent q)"
    by (simp add: pow2_52)
  also have "(of_int (2 ^ 52) :: rat) \<le> of_int (round_half_even (q / pow2 (ulp_exponent q)))"
    using significand_normal_pos [OF assms] by (simp only: of_int_le_iff)
  then have "of_int (2 ^ 52) * pow2 (ulp_exponent q)
      \<le> of_int (round_half_even (q / pow2 (ulp_exponent q))) * pow2 (ulp_exponent q)"
    by (rule scale_mono)
  finally show ?thesis by (simp only: round53_def)
qed

lemma round53_le_normal:
  assumes "q < 0" and "ulp_exponent q \<noteq> - 1074"
  shows "round53 q \<le> - pow2 (ulp_exponent q + 52)"
proof -
  have "(of_int (round_half_even (q / pow2 (ulp_exponent q))) :: rat) \<le> of_int (- (2 ^ 52))"
    using significand_normal_neg [OF assms] by (simp only: of_int_le_iff)
  then have "of_int (round_half_even (q / pow2 (ulp_exponent q))) * pow2 (ulp_exponent q)
      \<le> of_int (- (2 ^ 52)) * pow2 (ulp_exponent q)"
    by (rule scale_mono)
  also have "\<dots> = - pow2 (ulp_exponent q + 52)" by (simp add: pow2_52)
  finally show ?thesis by (simp only: round53_def)
qed

lemma round53_same_exponent:
  assumes "x \<le> y" and "ulp_exponent x = ulp_exponent y"
  shows "round53 x \<le> round53 y"
proof -
  from assms(1) have "x / pow2 (ulp_exponent y) \<le> y / pow2 (ulp_exponent y)"
    by (simp add: divide_right_mono)
  then have "round_half_even (x / pow2 (ulp_exponent y)) \<le> round_half_even (y / pow2 (ulp_exponent y))"
    by (rule round_half_even_mono)
  then have "(of_int (round_half_even (x / pow2 (ulp_exponent y))) :: rat)
      \<le> of_int (round_half_even (y / pow2 (ulp_exponent y)))"
    by (simp only: of_int_le_iff)
  then have "of_int (round_half_even (x / pow2 (ulp_exponent y))) * pow2 (ulp_exponent y)
      \<le> of_int (round_half_even (y / pow2 (ulp_exponent y))) * pow2 (ulp_exponent y)"
    by (rule scale_mono)
  then show ?thesis
    by (simp only: round53_def assms(2))
qed

lemma round53_mono:
  assumes "x \<le> y"
  shows "round53 x \<le> round53 y"
proof -
  consider "x \<le> 0" "0 \<le> y" | "0 < x" | "y < 0" by linarith
  then show ?thesis
  proof cases
    case 1
    then show ?thesis
      using round53_nonpos [of x] round53_nonneg [of y] by linarith
  next
    case 2
    with assms have y: "0 < y" and a: "\<bar>x\<bar> \<le> \<bar>y\<bar>" by simp_all
    from a have le: "ulp_exponent x \<le> ulp_exponent y" by (rule ulp_exponent_abs_mono)
    show ?thesis
    proof (cases "ulp_exponent x = ulp_exponent y")
      case True
      with assms show ?thesis by (rule round53_same_exponent)
    next
      case False
      with le have l: "ulp_exponent x < ulp_exponent y" by simp
      with ulp_exponent_ok [of x] have n: "ulp_exponent y \<noteq> - 1074"
        by (simp add: exponent_ok_def)
      have "round53 x \<le> pow2 (ulp_exponent x + 53)" by (rule round53_le_binade)
      also from l have "\<dots> \<le> pow2 (ulp_exponent y + 52)" by (intro pow2_mono) simp
      also have "\<dots> \<le> round53 y" using y n by (rule round53_ge_normal)
      finally show ?thesis .
    qed
  next
    case 3
    with assms have x: "x < 0" and a: "\<bar>y\<bar> \<le> \<bar>x\<bar>" by simp_all
    from a have le: "ulp_exponent y \<le> ulp_exponent x" by (rule ulp_exponent_abs_mono)
    show ?thesis
    proof (cases "ulp_exponent x = ulp_exponent y")
      case True
      with assms show ?thesis by (rule round53_same_exponent)
    next
      case False
      with le have l: "ulp_exponent y < ulp_exponent x" by simp
      with ulp_exponent_ok [of y] have n: "ulp_exponent x \<noteq> - 1074"
        by (simp add: exponent_ok_def)
      have "round53 x \<le> - pow2 (ulp_exponent x + 52)" using x n by (rule round53_le_normal)
      also from l have "\<dots> \<le> - pow2 (ulp_exponent y + 53)"
        by (simp add: pow2_mono)
      also have "\<dots> \<le> round53 y" by (rule round53_ge_binade)
      finally show ?thesis .
    qed
  qed
qed

lemma round53_grid:
  assumes "exponent_ok (of_int m * pow2 e) e"
  shows "round53 (of_int m * pow2 e) = of_int m * pow2 e"
proof -
  from assms have "ulp_exponent (of_int m * pow2 e) = e" by (rule ulp_exponent_eqI)
  then show ?thesis by (simp add: round53_def)
qed

lemma abs_scale: "\<bar>of_int m * pow2 e\<bar> = of_int \<bar>m\<bar> * pow2 e"
  by (simp add: abs_mult)

lemma round53_idem: "round53 (round53 q) = round53 q"
proof -
  let ?e = "ulp_exponent q"
  let ?m = "round_half_even (q / pow2 ?e)"
  have r: "round53 q = of_int ?m * pow2 ?e" by (simp only: round53_def)
  from ulp_exponent_ok [of q] have e: "- 1074 \<le> ?e" by (simp add: exponent_ok_def)
  have le: "\<bar>?m\<bar> \<le> 2 ^ 53"
    using significand_le [of q] significand_ge [of q] by linarith
  show ?thesis
  proof (cases "\<bar>?m\<bar> = 2 ^ 53")
    case True
    then have c: "?m = 2 ^ 53 \<or> ?m = - (2 ^ 53)" by linarith
    have p: "pow2 (?e + 1) = 2 * pow2 ?e" by (simp add: pow2_add pow2_nat)
    have ok: "exponent_ok (of_int s * pow2 (?e + 1)) (?e + 1)" if "\<bar>s\<bar> = 2 ^ 52" for s :: int
    proof -
      have "\<bar>of_int s * pow2 (?e + 1)\<bar> = of_int \<bar>s\<bar> * pow2 (?e + 1)" by (rule abs_scale)
      also have "\<dots> = pow2 (?e + 1) * 2 ^ 52" by (simp add: that mult.commute)
      also have "\<dots> = pow2 (?e + 1 + 52)" by (rule pow2_52 [symmetric])
      finally have a: "\<bar>of_int s * pow2 (?e + 1)\<bar> = pow2 (?e + 1 + 52)" .
      have "pow2 (?e + 1 + 52) < pow2 (?e + 1 + 53)" by (intro pow2_strict_mono) simp
      with e show ?thesis by (simp only: exponent_ok_def a) simp
    qed
    from c show ?thesis
    proof
      assume m: "?m = 2 ^ 53"
      have "round53 q = of_int (2 ^ 52) * pow2 (?e + 1)" by (simp add: r m p)
      moreover have "round53 (of_int (2 ^ 52) * pow2 (?e + 1)) = of_int (2 ^ 52) * pow2 (?e + 1)"
        by (rule round53_grid, rule ok) simp
      ultimately show ?thesis by simp
    next
      assume m: "?m = - (2 ^ 53)"
      have "round53 q = of_int (- (2 ^ 52)) * pow2 (?e + 1)" by (simp add: r m p)
      moreover have "round53 (of_int (- (2 ^ 52)) * pow2 (?e + 1)) = of_int (- (2 ^ 52)) * pow2 (?e + 1)"
        by (rule round53_grid, rule ok) simp
      ultimately show ?thesis by simp
    qed
  next
    case False
    with le have lt: "\<bar>?m\<bar> < 2 ^ 53" by simp
    have n: "?e = - 1074 \<or> 2 ^ 52 \<le> \<bar>?m\<bar>"
    proof (cases "?e = - 1074")
      case True
      then show ?thesis by simp
    next
      case ne: False
      consider "q = 0" | "0 < q" | "q < 0" by linarith
      then show ?thesis
      proof cases
        case 1
        then show ?thesis by (simp add: ulp_exponent_def)
      next
        case 2
        from significand_normal_pos [OF 2 ne] show ?thesis by simp
      next
        case 3
        from significand_normal_neg [OF 3 ne] show ?thesis by simp
      qed
    qed
    have a: "\<bar>of_int ?m * pow2 ?e\<bar> = of_int \<bar>?m\<bar> * pow2 ?e" by (rule abs_scale)
    have u: "of_int \<bar>?m\<bar> * pow2 ?e < pow2 (?e + 53)"
    proof -
      from lt have "(of_int \<bar>?m\<bar> :: rat) < of_int (2 ^ 53)" by (simp only: of_int_less_iff)
      then have "of_int \<bar>?m\<bar> * pow2 ?e < of_int (2 ^ 53) * pow2 ?e"
        by (rule mult_strict_right_mono) simp
      then show ?thesis by (simp add: pow2_53 mult.commute)
    qed
    have l: "?e = - 1074 \<or> pow2 (?e + 52) \<le> of_int \<bar>?m\<bar> * pow2 ?e"
    proof (cases "?e = - 1074")
      case True
      then show ?thesis by simp
    next
      case False
      with n have "2 ^ 52 \<le> \<bar>?m\<bar>" by simp
      then have "(of_int (2 ^ 52) :: rat) \<le> of_int \<bar>?m\<bar>" by (simp only: of_int_le_iff)
      then have "of_int (2 ^ 52) * pow2 ?e \<le> of_int \<bar>?m\<bar> * pow2 ?e" by (rule scale_mono)
      then show ?thesis by (simp add: pow2_52 mult.commute)
    qed
    have "exponent_ok (of_int ?m * pow2 ?e) ?e"
      unfolding exponent_ok_def a using e u l by simp
    then have "round53 (of_int ?m * pow2 ?e) = of_int ?m * pow2 ?e" by (rule round53_grid)
    then show ?thesis by (simp only: r)
  qed
qed

lemma is_double_round53 [simp]: "is_double (round53 q)"
  by (simp add: is_double_def round53_idem)

lemma is_double_0 [simp]: "is_double 0"
  by (simp add: is_double_def)

lemma float_add_0 [simp]: "float_add x 0 = x"
  by (simp add: float_add_def)

lemma float_add_0_left [simp]: "float_add 0 d = d"
  by (simp add: float_add_def)

lemma float_add_round53:
  "is_double x \<Longrightarrow> is_double d \<Longrightarrow> float_add x d = round53 (x + d)"
  by (simp add: float_add_def is_double_def)

lemma is_double_float_add:
  "is_double x \<Longrightarrow> is_double d \<Longrightarrow> is_double (float_add x d)"
  by (simp add: float_add_def)

lemma float_add_mono:
  assumes "is_double d" and "x \<le> y"
  shows "float_add x d \<le> float_add y d"
proof (cases "d = 0")
  case True
  with assms(2) show ?thesis by simp
next
  case False
  have "float_add z d = round53 (z + d)" for z
    using assms(1) False by (simp add: float_add_def is_double_def)
  with assms(2) show ?thesis by (simp add: round53_mono)
qed

lemma float_add_ge:
  assumes "is_double x" and "is_double d" and "0 \<le> d"
  shows "x \<le> float_add x d"
proof -
  from assms(1) have "x = round53 x" by (simp add: is_double_def)
  also have "\<dots> \<le> round53 (x + d)" using assms(3) by (intro round53_mono) simp
  also have "\<dots> = float_add x d" using assms(1,2) by (simp add: float_add_round53)
  finally show ?thesis .
qed

lemma float_add_exact:
  assumes "is_double x" and "is_double d" and "is_double (x + d)"
  shows "float_add x d = x + d"
  using assms by (simp add: float_add_round53) (simp add: is_double_def)

text \<open>The floats are the numbers \<open>m * 2 ^ e\<close> with \<open>\<bar>m\<bar> \<le> 2 ^ 53\<close> and \<open>e \<ge> - 1074\<close>, and
  \<open>round53\<close> returns a nearest one.\<close>

lemma round_half_even_nearest:
  "\<bar>of_int (round_half_even x) - x\<bar> \<le> \<bar>of_int n - x\<bar>"
proof -
  let ?f = "\<lfloor>x\<rfloor>"
  let ?d = "x - of_int ?f"
  have d: "0 \<le> ?d" "?d < 1" by linarith+
  have r: "\<bar>of_int (round_half_even x) - x\<bar> \<le> ?d \<and> \<bar>of_int (round_half_even x) - x\<bar> \<le> 1 - ?d"
    using d by (auto simp: round_half_even_def Let_def)
  consider "n \<le> ?f" | "?f + 1 \<le> n" by linarith
  then show ?thesis
  proof cases
    case 1
    then have "(of_int n :: rat) \<le> of_int ?f" by (simp only: of_int_le_iff)
    then have "?d \<le> \<bar>of_int n - x\<bar>" by linarith
    with r show ?thesis by linarith
  next
    case 2
    then have "(of_int (?f + 1) :: rat) \<le> of_int n" by (simp only: of_int_le_iff)
    then have "1 - ?d \<le> \<bar>of_int n - x\<bar>" by simp
    with r show ?thesis by linarith
  qed
qed

lemma abs_scale_diff: "\<bar>a * pow2 e - q\<bar> = \<bar>a - q / pow2 e\<bar> * pow2 e"
proof -
  have "a * pow2 e - q = (a - q / pow2 e) * pow2 e" by (simp add: left_diff_distrib)
  then show ?thesis by (simp only: abs_mult) simp
qed

lemma round53_grid_nearest:
  "\<bar>round53 q - q\<bar> \<le> \<bar>of_int n * pow2 (ulp_exponent q) - q\<bar>"
proof -
  let ?u = "pow2 (ulp_exponent q)"
  have "\<bar>round53 q - q\<bar> = \<bar>of_int (round_half_even (q / ?u)) - q / ?u\<bar> * ?u"
    by (simp only: round53_def abs_scale_diff)
  also have "\<dots> \<le> \<bar>of_int n - q / ?u\<bar> * ?u"
    by (intro mult_right_mono round_half_even_nearest) simp
  also have "\<dots> = \<bar>of_int n * ?u - q\<bar>"
    by (simp only: abs_scale_diff)
  finally show ?thesis .
qed

lemma pow2_diff_int:
  assumes "e \<le> e'"
  shows "pow2 e' = of_int (2 ^ nat (e' - e)) * pow2 e"
proof -
  have "pow2 e' = pow2 ((e' - e) + e)" by simp
  also have "\<dots> = pow2 (e' - e) * pow2 e" by (rule pow2_add)
  also have "pow2 (e' - e) = of_int (2 ^ nat (e' - e))" using assms by (simp add: pow2_nat)
  finally show ?thesis .
qed

lemma round53_nearest:
  assumes "is_double d"
  shows "\<bar>round53 q - q\<bar> \<le> \<bar>d - q\<bar>"
proof -
  let ?e = "ulp_exponent q" and ?e' = "ulp_exponent d"
  let ?m' = "round_half_even (d / pow2 ?e')"
  from assms have d: "d = of_int ?m' * pow2 ?e'" by (simp add: is_double_def round53_def)
  show ?thesis
  proof (cases "?e \<le> ?e'")
    case True
    have "d = of_int ?m' * (of_int (2 ^ nat (?e' - ?e)) * pow2 ?e)"
      using d pow2_diff_int [OF True] by simp
    then have "d = of_int (?m' * 2 ^ nat (?e' - ?e)) * pow2 ?e" by simp
    then show ?thesis using round53_grid_nearest [of q "?m' * 2 ^ nat (?e' - ?e)"] by simp
  next
    case False
    then have l: "?e' < ?e" by simp
    with ulp_exponent_ok [of d] have "?e \<noteq> - 1074" by (simp add: exponent_ok_def)
    with ulp_exponent_ok [of q] have q: "pow2 (?e + 52) \<le> \<bar>q\<bar>" by (simp add: exponent_ok_def)
    from ulp_exponent_ok [of d] have "\<bar>d\<bar> < pow2 (?e' + 53)" by (simp add: exponent_ok_def)
    also from l have "\<dots> \<le> pow2 (?e + 52)" by (intro pow2_mono) simp
    finally have b: "\<bar>d\<bar> < pow2 (?e + 52)" .
    have p: "pow2 (?e + 52) = of_int (2 ^ 52) * pow2 ?e" by (simp add: pow2_52)
    show ?thesis
    proof (cases "0 \<le> q")
      case True
      have "\<bar>round53 q - q\<bar> \<le> \<bar>of_int (2 ^ 52) * pow2 ?e - q\<bar>" by (rule round53_grid_nearest)
      also have "\<dots> = \<bar>pow2 (?e + 52) - q\<bar>" by (simp only: p)
      also have "\<dots> \<le> \<bar>d - q\<bar>" using q b True by linarith
      finally show ?thesis .
    next
      case False
      have "\<bar>round53 q - q\<bar> \<le> \<bar>of_int (- (2 ^ 52)) * pow2 ?e - q\<bar>" by (rule round53_grid_nearest)
      also have "\<dots> = \<bar>- pow2 (?e + 52) - q\<bar>" by (simp add: p)
      also have "\<dots> \<le> \<bar>d - q\<bar>" using q b False by linarith
      finally show ?thesis .
    qed
  qed
qed

lemma is_double_iff:
  "is_double q \<longleftrightarrow> (\<exists>m e. - 1074 \<le> e \<and> \<bar>m\<bar> \<le> 2 ^ 53 \<and> q = of_int m * pow2 e)"
proof
  assume "is_double q"
  then have "q = of_int (round_half_even (q / pow2 (ulp_exponent q))) * pow2 (ulp_exponent q)"
    by (simp add: is_double_def round53_def)
  moreover have "\<bar>round_half_even (q / pow2 (ulp_exponent q))\<bar> \<le> 2 ^ 53"
    using significand_le [of q] significand_ge [of q] by linarith
  moreover have "- 1074 \<le> ulp_exponent q"
    using ulp_exponent_ok [of q] by (simp add: exponent_ok_def)
  ultimately show "\<exists>m e. - 1074 \<le> e \<and> \<bar>m\<bar> \<le> 2 ^ 53 \<and> q = of_int m * pow2 e" by blast
next
  assume "\<exists>m e. - 1074 \<le> e \<and> \<bar>m\<bar> \<le> 2 ^ 53 \<and> q = of_int m * pow2 e"
  then obtain m e where e: "- 1074 \<le> e" and m: "\<bar>m\<bar> \<le> 2 ^ 53" and q: "q = of_int m * pow2 e"
    by blast
  let ?e = "ulp_exponent q"
  have "\<exists>n. q = of_int n * pow2 ?e"
  proof (cases "?e \<le> e")
    case True
    have "q = of_int (m * 2 ^ nat (e - ?e)) * pow2 ?e"
      using q pow2_diff_int [OF True] by simp
    then show ?thesis ..
  next
    case False
    then have l: "e < ?e" by simp
    with e have "?e \<noteq> - 1074" by simp
    with ulp_exponent_ok [of q] have "pow2 (?e + 52) \<le> \<bar>q\<bar>" by (simp add: exponent_ok_def)
    moreover from l have "pow2 (e + 53) \<le> pow2 (?e + 52)" by (intro pow2_mono) simp
    ultimately have "pow2 (e + 53) \<le> \<bar>q\<bar>" by simp
    then have "of_int (2 ^ 53) * pow2 e \<le> of_int \<bar>m\<bar> * pow2 e"
      by (simp add: q abs_mult pow2_53 mult.commute)
    then have "(of_int (2 ^ 53) :: rat) \<le> of_int \<bar>m\<bar>"
      by (simp only: mult_le_cancel_right_pos [OF pow2_pos])
    then have "2 ^ 53 \<le> \<bar>m\<bar>" by (simp only: of_int_le_iff)
    with m have m53: "\<bar>m\<bar> = 2 ^ 53" by simp
    then have "\<bar>q\<bar> = pow2 (e + 53)" by (simp add: q abs_mult pow2_53 mult.commute)
    have ok: "exponent_ok q (e + 1)"
    proof -
      have "pow2 (e + 53) < pow2 (e + 1 + 53)" by (intro pow2_strict_mono) simp
      moreover have "pow2 (e + 1 + 52) = pow2 (e + 53)" by (simp add: add.commute add.left_commute)
      ultimately show ?thesis
        using e \<open>\<bar>q\<bar> = pow2 (e + 53)\<close> by (simp only: exponent_ok_def) simp
    qed
    then have "?e = e + 1" by (rule ulp_exponent_eqI)
    moreover have "pow2 (e + 1) = 2 * pow2 e" by (simp add: pow2_add pow2_nat)
    moreover from m53 have "m = 2 ^ 53 \<or> m = - (2 ^ 53)" by linarith
    then have "m = 2 * (m div 2)" by auto
    then have "(of_int m :: rat) = of_int (m div 2) * 2"
      by (metis mult.commute of_int_mult of_int_numeral)
    ultimately have "q = of_int (m div 2) * pow2 ?e" by (simp add: q)
    then show ?thesis ..
  qed
  then obtain n where n: "q = of_int n * pow2 ?e" ..
  have "of_int n * pow2 ?e / pow2 ?e = (of_int n :: rat)" by simp
  with n have "q / pow2 ?e = of_int n" by (rule ssubst [where P = "\<lambda>x. x / pow2 ?e = of_int n"])
  then have "round53 q = of_int n * pow2 ?e" by (simp add: round53_def)
  with n show "is_double q" by (simp add: is_double_def)
qed

section \<open>Properties of the transcript assembly\<close>

subsection \<open>The loops\<close>

lemma adjust_segments_snd: "snd (adjust_segments d as (h, acc)) = acc @ as"
  by (induction as arbitrary: h acc) auto

lemma adjust_segments_other:
  "a \<notin> set as \<Longrightarrow> fst (adjust_segments d as (h, acc)) a = h a"
  by (induction as arbitrary: h acc) auto

lemma adjust_segments_member:
  "distinct as \<Longrightarrow> a \<in> set as \<Longrightarrow> fst (adjust_segments d as (h, acc)) a = shift d (h a)"
  by (induction as arbitrary: h acc) (auto simp: adjust_segments_other)

lemma fold_max_end_time:
  "fold (\<lambda>b m. max m (end_time (h b))) as m0 = Max (insert m0 ((\<lambda>b. end_time (h b)) ` set as))"
proof (induction as arbitrary: m0)
  case Nil
  then show ?case by simp
next
  case (Cons a as)
  have "Max (insert (max m0 (end_time (h a))) ((\<lambda>b. end_time (h b)) ` set as))
      = Max (insert m0 (insert (end_time (h a)) ((\<lambda>b. end_time (h b)) ` set as)))"
    by (cases "as = []") (simp_all add: max.assoc)
  with Cons show ?case by simp
qed

lemma max_end_time_Max:
  "max_end_time h a as = Max ((\<lambda>b. end_time (h b)) ` set (a # as))"
  by (simp add: fold_max_end_time)

lemma heap_merge_chunk:
  "heap (merge_chunk st c) = fst (adjust_segments (total_duration st) (segments c) (heap st, all_segments st))"
  by (simp add: merge_chunk_def case_prod_beta)

lemma all_segments_merge_chunk:
  "all_segments (merge_chunk st c) = all_segments st @ segments c"
  by (simp add: merge_chunk_def case_prod_beta adjust_segments_snd)

lemma max_speaker_count_merge_chunk:
  "max_speaker_count (merge_chunk st c) = max (max_speaker_count st) (speaker_count c)"
  by (simp add: merge_chunk_def case_prod_beta)

lemma total_duration_merge_chunk:
  "total_duration (merge_chunk st c) =
     (if segments c = [] then total_duration st
      else Max ((\<lambda>b. end_time (heap (merge_chunk st c) b)) ` set (segments c)))"
  by (cases "segments c") (simp_all add: merge_chunk_def fold_max_end_time case_prod_beta)

lemma merge_loop_append: "merge_loop st (xs @ ys) = merge_loop (merge_loop st xs) ys"
  by (induction xs arbitrary: st) auto

lemma heap_merge_loop_other:
  "a \<notin> set (concat (map segments cs)) \<Longrightarrow> heap (merge_loop st cs) a = heap st a"
  by (induction cs arbitrary: st) (auto simp: heap_merge_chunk adjust_segments_other)

lemma all_segments_merge_loop:
  "all_segments (merge_loop st cs) = all_segments st @ concat (map segments cs)"
  by (induction cs arbitrary: st) (auto simp: all_segments_merge_chunk)

lemma max_speaker_count_merge_loop:
  "max_speaker_count (merge_loop st cs) = Max (insert (max_speaker_count st) (speaker_count ` set cs))"
proof (induction cs arbitrary: st)
  case Nil
  then show ?case by simp
next
  case (Cons c cs)
  have "Max (insert (max (max_speaker_count st) (speaker_count c)) (speaker_count ` set cs))
      = Max (insert (max_speaker_count st) (insert (speaker_count c) (speaker_count ` set cs)))"
    by (cases "cs = []") (simp_all add: max.assoc)
  with Cons show ?case by (simp add: max_speaker_count_merge_chunk)
qed

lemma end_time_shift [simp]: "end_time (shift d s) = float_add (end_time s) d"
  by (simp add: shift_def)

lemma start_time_shift [simp]: "start_time (shift d s) = float_add (start_time s) d"
  by (simp add: shift_def)

lemma word_shift [simp]: "word (shift d s) = word s"
  by (simp add: shift_def)

lemma speaker_shift [simp]: "speaker (shift d s) = speaker s"
  by (simp add: shift_def)

lemma shift_0 [simp]: "shift 0 s = s"
  by (simp add: shift_def)

lemma adjust_segments_0: "adjust_segments 0 as (h, acc) = (h, acc @ as)"
  by (induction as arbitrary: acc) simp_all

subsection \<open>Rebasing onto one timeline\<close>

lemma distinct_concat_nth:
  assumes "distinct (concat (map segments cs))" and "i < length cs"
  shows "distinct (segments (cs ! i))"
    and "set (segments (cs ! i)) \<inter> set (concat (map segments (take i cs))) = {}"
    and "set (segments (cs ! i)) \<inter> set (concat (map segments (drop (Suc i) cs))) = {}"
proof -
  from assms(2) have "cs = take i cs @ (cs ! i) # drop (Suc i) cs"
    by (simp add: id_take_nth_drop)
  then have "concat (map segments cs) =
      concat (map segments (take i cs)) @ segments (cs ! i) @ concat (map segments (drop (Suc i) cs))"
    by (metis concat.simps(2) concat_append list.simps(9) map_append)
  with assms(1) have d: "distinct (concat (map segments (take i cs)) @ segments (cs ! i) @
      concat (map segments (drop (Suc i) cs)))"
    by simp
  from d show "distinct (segments (cs ! i))" by simp
  from d show "set (segments (cs ! i)) \<inter> set (concat (map segments (take i cs))) = {}"
    by auto
  from d show "set (segments (cs ! i)) \<inter> set (concat (map segments (drop (Suc i) cs))) = {}"
    by auto
qed

lemma heap_initial [simp]: "heap (initial_state h) = h"
  by (simp add: initial_state_def)

lemma heap_after_chunk:
  assumes "distinct (concat (map segments cs))" and "i < length cs"
    and "a \<in> set (segments (cs ! i))"
  shows "heap (merge_loop (initial_state h) (take (Suc i) cs)) a = shift (timeline_offset h cs i) (h a)"
proof -
  let ?st = "merge_loop (initial_state h) (take i cs)"
  have before: "heap ?st a = h a"
    using distinct_concat_nth(2)[OF assms(1,2)] assms(3)
    by (subst heap_merge_loop_other) auto
  have "take (Suc i) cs = take i cs @ [cs ! i]"
    using assms(2) by (simp add: take_Suc_conv_app_nth)
  then have "heap (merge_loop (initial_state h) (take (Suc i) cs)) a = heap (merge_chunk ?st (cs ! i)) a"
    by (simp add: merge_loop_append)
  also have "\<dots> = shift (total_duration ?st) (heap ?st a)"
    using distinct_concat_nth(1)[OF assms(1,2)] assms(3)
    by (simp add: heap_merge_chunk adjust_segments_member)
  finally show ?thesis
    by (simp add: before timeline_offset_def)
qed

lemma heap_final:
  assumes "distinct (concat (map segments cs))" and "i < length cs"
    and "a \<in> set (segments (cs ! i))"
  shows "heap (merge_loop (initial_state h) cs) a = shift (timeline_offset h cs i) (h a)"
proof -
  have "cs = take (Suc i) cs @ drop (Suc i) cs" by simp
  then have "merge_loop (initial_state h) cs =
      merge_loop (merge_loop (initial_state h) (take (Suc i) cs)) (drop (Suc i) cs)"
    by (metis merge_loop_append)
  moreover have "a \<notin> set (concat (map segments (drop (Suc i) cs)))"
    using distinct_concat_nth(3)[OF assms(1,2)] assms(3) by auto
  ultimately have "heap (merge_loop (initial_state h) cs) a =
      heap (merge_loop (initial_state h) (take (Suc i) cs)) a"
    by (simp add: heap_merge_loop_other)
  then show ?thesis
    by (simp add: heap_after_chunk[OF assms])
qed

lemma timeline_offset_0: "timeline_offset h cs 0 = 0"
  by (simp add: timeline_offset_def initial_state_def)

lemma timeline_offset_Suc:
  assumes "i < length cs"
  shows "timeline_offset h cs (Suc i) =
     (if segments (cs ! i) = [] then timeline_offset h cs i
      else Max ((\<lambda>b. end_time (heap (merge_loop (initial_state h) (take (Suc i) cs)) b)) ` set (segments (cs ! i))))"
proof -
  have "take (Suc i) cs = take i cs @ [cs ! i]"
    using assms by (simp add: take_Suc_conv_app_nth)
  then have *: "merge_loop (initial_state h) (take (Suc i) cs) =
      merge_chunk (merge_loop (initial_state h) (take i cs)) (cs ! i)"
    by (simp add: merge_loop_append)
  show ?thesis
    unfolding timeline_offset_def *
    by (rule total_duration_merge_chunk)
qed

lemma timeline_offset_Suc_final:
  assumes "distinct (concat (map segments cs))" and "i < length cs"
  shows "timeline_offset h cs (Suc i) =
     (if segments (cs ! i) = [] then timeline_offset h cs i
      else Max ((\<lambda>b. end_time (heap (merge_loop (initial_state h) cs) b)) ` set (segments (cs ! i))))"
proof -
  have "(\<lambda>b. end_time (heap (merge_loop (initial_state h) (take (Suc i) cs)) b)) ` set (segments (cs ! i))
      = (\<lambda>b. end_time (heap (merge_loop (initial_state h) cs) b)) ` set (segments (cs ! i))"
    by (rule image_cong) (simp_all add: heap_after_chunk[OF assms] heap_final[OF assms])
  then show ?thesis
    by (simp add: timeline_offset_Suc[OF assms(2)])
qed

lemma fst_merge: "fst (merge_transcript_chunks h cs) = heap (merge_loop (initial_state h) cs)"
  by (simp add: merge_transcript_chunks_def Let_def case_prod_beta)

lemma duration_merge:
  "duration_seconds (snd (merge_transcript_chunks h cs)) = py_int (total_duration (merge_loop (initial_state h) cs))"
  by (simp add: merge_transcript_chunks_def Let_def case_prod_beta)

lemma speaker_count_merge:
  "result_speaker_count (snd (merge_transcript_chunks h cs)) = max_speaker_count (merge_loop (initial_state h) cs)"
  by (simp add: merge_transcript_chunks_def Let_def case_prod_beta)

lemma float_store_update:
  "float_store h \<Longrightarrow> is_double d \<Longrightarrow> float_store (h(a := shift d (h a)))"
  by (simp add: float_store_def is_double_float_add)

lemma adjust_segments_float:
  "float_store h \<Longrightarrow> is_double d \<Longrightarrow> float_store (fst (adjust_segments d as (h, acc)))"
  by (induction as arbitrary: h acc) (simp_all add: float_store_update)

lemma Max_end_time_double:
  assumes "float_store h" and "as \<noteq> []"
  shows "is_double (Max ((\<lambda>b. end_time (h b)) ` set as))"
proof -
  have "Max ((\<lambda>b. end_time (h b)) ` set as) \<in> (\<lambda>b. end_time (h b)) ` set as"
    using assms(2) by (intro Max_in) simp_all
  then obtain b where "Max ((\<lambda>b. end_time (h b)) ` set as) = end_time (h b)" by blast
  with assms(1) show ?thesis by (simp add: float_store_def)
qed

lemma merge_chunk_float:
  assumes "float_store (heap st)" and "is_double (total_duration st)"
  shows "float_store (heap (merge_chunk st c))" and "is_double (total_duration (merge_chunk st c))"
proof -
  show h: "float_store (heap (merge_chunk st c))"
    using assms by (simp add: heap_merge_chunk adjust_segments_float)
  show "is_double (total_duration (merge_chunk st c))"
  proof (cases "segments c = []")
    case True
    with assms(2) show ?thesis by (simp add: total_duration_merge_chunk)
  next
    case False
    with Max_end_time_double [OF h False] show ?thesis
      by (simp add: total_duration_merge_chunk)
  qed
qed

lemma merge_loop_float:
  "float_store (heap st) \<Longrightarrow> is_double (total_duration st) \<Longrightarrow>
   float_store (heap (merge_loop st cs)) \<and> is_double (total_duration (merge_loop st cs))"
  by (induction cs arbitrary: st) (simp_all add: merge_chunk_float)

lemma timeline_offset_double:
  "float_store h \<Longrightarrow> is_double (timeline_offset h cs i)"
  using merge_loop_float [of "initial_state h" "take i cs"]
  by (simp add: timeline_offset_def initial_state_def)

lemma Max_float_add:
  assumes "is_double d" and "as \<noteq> []"
  shows "Max ((\<lambda>b. float_add (end_time (h b)) d) ` set as)
       = float_add (Max ((\<lambda>b. end_time (h b)) ` set as)) d"
proof -
  have m: "mono (\<lambda>x. float_add x d)"
    using assms(1) by (intro monoI float_add_mono)
  have "(\<lambda>x. float_add x d) (Max ((\<lambda>b. end_time (h b)) ` set as))
      = Max ((\<lambda>x. float_add x d) ` (\<lambda>b. end_time (h b)) ` set as)"
    using assms(2) by (intro mono_Max_commute [OF m]) simp_all
  then show ?thesis by (simp add: image_image)
qed

lemma timeline_offset_Suc_local:
  assumes "distinct (concat (map segments cs))" and "float_store h"
    and "i < length cs" and "segments (cs ! i) \<noteq> []"
  shows "timeline_offset h cs (Suc i) =
     round53 (timeline_offset h cs i + Max ((\<lambda>b. end_time (h b)) ` set (segments (cs ! i))))"
proof -
  let ?d = "timeline_offset h cs i"
  let ?M = "Max ((\<lambda>b. end_time (h b)) ` set (segments (cs ! i)))"
  have d: "is_double ?d" using assms(2) by (rule timeline_offset_double)
  have M: "is_double ?M" using assms(2,4) by (rule Max_end_time_double)
  have "(\<lambda>b. end_time (heap (merge_loop (initial_state h) (take (Suc i) cs)) b)) ` set (segments (cs ! i))
      = (\<lambda>b. float_add (end_time (h b)) ?d) ` set (segments (cs ! i))"
    by (rule image_cong) (simp_all add: heap_after_chunk [OF assms(1,3)])
  then have "timeline_offset h cs (Suc i) = Max ((\<lambda>b. float_add (end_time (h b)) ?d) ` set (segments (cs ! i)))"
    using assms(4) by (simp add: timeline_offset_Suc [OF assms(3)])
  also have "\<dots> = float_add ?M ?d" using d assms(4) by (rule Max_float_add)
  also have "\<dots> = round53 (?M + ?d)" using M d by (rule float_add_round53)
  finally show ?thesis by (simp add: add.commute)
qed

lemma segment_after_merge:
  assumes "distinct (concat (map segments cs))" and "float_store h"
    and "i < length cs" and "a \<in> set (segments (cs ! i))"
  shows "start_time (fst (merge_transcript_chunks h cs) a)
           = round53 (start_time (h a) + timeline_offset h cs i)"
    and "end_time (fst (merge_transcript_chunks h cs) a)
           = round53 (end_time (h a) + timeline_offset h cs i)"
    and "word (fst (merge_transcript_chunks h cs) a) = word (h a)"
    and "speaker (fst (merge_transcript_chunks h cs) a) = speaker (h a)"
proof -
  have e: "fst (merge_transcript_chunks h cs) a = shift (timeline_offset h cs i) (h a)"
    by (simp add: fst_merge heap_final [OF assms(1,3,4)])
  have d: "is_double (timeline_offset h cs i)" using assms(2) by (rule timeline_offset_double)
  from assms(2) have s: "is_double (start_time (h a))" and t: "is_double (end_time (h a))"
    by (simp_all add: float_store_def)
  show "start_time (fst (merge_transcript_chunks h cs) a)
           = round53 (start_time (h a) + timeline_offset h cs i)"
    by (simp add: e float_add_round53 [OF s d])
  show "end_time (fst (merge_transcript_chunks h cs) a)
           = round53 (end_time (h a) + timeline_offset h cs i)"
    by (simp add: e float_add_round53 [OF t d])
  show "word (fst (merge_transcript_chunks h cs) a) = word (h a)" by (simp add: e)
  show "speaker (fst (merge_transcript_chunks h cs) a) = speaker (h a)" by (simp add: e)
qed

lemma duration_truncated:
  "(0 \<le> total_duration (merge_loop (initial_state h) cs) \<longrightarrow>
      duration_seconds (snd (merge_transcript_chunks h cs)) = \<lfloor>total_duration (merge_loop (initial_state h) cs)\<rfloor>)
   \<and> (total_duration (merge_loop (initial_state h) cs) < 0 \<longrightarrow>
      duration_seconds (snd (merge_transcript_chunks h cs)) = \<lceil>total_duration (merge_loop (initial_state h) cs)\<rceil>)"
  by (simp add: duration_merge py_int_def)

text \<open>
  Claim C1.  The chunk results are separate objects: no segment dictionary occurs twice in
  the input, and the times in the store are floats.  Then the running total starts at 0;
  every segment of the chunk at index \<open>i\<close> ends up with its start time and its end time
  replaced by the float sum of that time and the total that was current when the chunk was
  reached, its word and speaker tag as they were; after the chunk the total is the largest
  rebased end time of the chunk, which for a chunk with words is the float sum of the total
  before the chunk and the chunk's largest local end time, and it is unchanged after a
  chunk without words; and \<open>duration_seconds\<close> is the final total truncated towards zero,
  its floor when it is not negative and its ceiling when it is.
\<close>

theorem merge_timeline_offset:
  assumes "distinct (concat (map segments cs))" and "float_store h"
  shows "timeline_offset h cs 0 = 0
    \<and> (\<forall>i<length cs. \<forall>a\<in>set (segments (cs ! i)).
          start_time (fst (merge_transcript_chunks h cs) a)
            = round53 (start_time (h a) + timeline_offset h cs i)
          \<and> end_time (fst (merge_transcript_chunks h cs) a)
            = round53 (end_time (h a) + timeline_offset h cs i)
          \<and> word (fst (merge_transcript_chunks h cs) a) = word (h a)
          \<and> speaker (fst (merge_transcript_chunks h cs) a) = speaker (h a))
    \<and> (\<forall>i<length cs. timeline_offset h cs (Suc i) =
          (if segments (cs ! i) = [] then timeline_offset h cs i
           else Max ((\<lambda>a. end_time (fst (merge_transcript_chunks h cs) a)) ` set (segments (cs ! i)))))
    \<and> (\<forall>i<length cs. segments (cs ! i) \<noteq> [] \<longrightarrow> timeline_offset h cs (Suc i) =
          round53 (timeline_offset h cs i + Max ((\<lambda>a. end_time (h a)) ` set (segments (cs ! i)))))
    \<and> (0 \<le> timeline_offset h cs (length cs) \<longrightarrow>
          duration_seconds (snd (merge_transcript_chunks h cs)) = \<lfloor>timeline_offset h cs (length cs)\<rfloor>)
    \<and> (timeline_offset h cs (length cs) < 0 \<longrightarrow>
          duration_seconds (snd (merge_transcript_chunks h cs)) = \<lceil>timeline_offset h cs (length cs)\<rceil>)"
proof (intro conjI allI impI ballI)
  show "timeline_offset h cs 0 = 0" by (rule timeline_offset_0)
next
  fix i a assume i: "i < length cs" and a: "a \<in> set (segments (cs ! i))"
  show "start_time (fst (merge_transcript_chunks h cs) a)
            = round53 (start_time (h a) + timeline_offset h cs i)"
    using assms i a by (rule segment_after_merge(1))
  show "end_time (fst (merge_transcript_chunks h cs) a)
            = round53 (end_time (h a) + timeline_offset h cs i)"
    using assms i a by (rule segment_after_merge(2))
  show "word (fst (merge_transcript_chunks h cs) a) = word (h a)"
    using assms i a by (rule segment_after_merge(3))
  show "speaker (fst (merge_transcript_chunks h cs) a) = speaker (h a)"
    using assms i a by (rule segment_after_merge(4))
next
  fix i assume "i < length cs"
  then show "timeline_offset h cs (Suc i) =
          (if segments (cs ! i) = [] then timeline_offset h cs i
           else Max ((\<lambda>a. end_time (fst (merge_transcript_chunks h cs) a)) ` set (segments (cs ! i))))"
    unfolding fst_merge by (rule timeline_offset_Suc_final [OF assms(1)])
next
  fix i assume "i < length cs" "segments (cs ! i) \<noteq> []"
  with assms show "timeline_offset h cs (Suc i) =
          round53 (timeline_offset h cs i + Max ((\<lambda>a. end_time (h a)) ` set (segments (cs ! i))))"
    by (rule timeline_offset_Suc_local)
next
  assume "0 \<le> timeline_offset h cs (length cs)"
  then show "duration_seconds (snd (merge_transcript_chunks h cs)) = \<lfloor>timeline_offset h cs (length cs)\<rfloor>"
    using duration_truncated [of h cs] by (simp add: timeline_offset_def)
next
  assume "timeline_offset h cs (length cs) < 0"
  then show "duration_seconds (snd (merge_transcript_chunks h cs)) = \<lceil>timeline_offset h cs (length cs)\<rceil>"
    using duration_truncated [of h cs] by (simp add: timeline_offset_def)
qed

lemma float_store_store_of:
  assumes "\<forall>s\<in>set xs. is_double (start_time s) \<and> is_double (end_time s)"
  shows "float_store (store_of xs)"
  using assms by (simp add: float_store_def store_of_def empty_segment_def)

lemma tenth_store_float: "float_store tenth_store"
  unfolding tenth_store_def by (rule float_store_store_of) simp

text \<open>Four one-word chunks ending at the floats nearest to 0.1, 0.5, 0.3 and 0.1: the
  total is one step of the float grid below 1 and the duration is 0, where exact sums
  would give 1.  The two chunks of the example give the total 4.5 and the duration 4.\<close>

theorem merge_timeline_offset_witness:
  "distinct (concat (map segments tenth_chunks))
   \<and> float_store tenth_store
   \<and> timeline_offset tenth_store tenth_chunks 3 = 8106479329266892 / 9007199254740992
   \<and> end_time (tenth_store 3) = 3602879701896397 / 36028797018963968
   \<and> end_time (fst (merge_transcript_chunks tenth_store tenth_chunks) 3)
        = 9007199254740991 / 9007199254740992
   \<and> timeline_offset tenth_store tenth_chunks 4 = 9007199254740991 / 9007199254740992
   \<and> duration_seconds (snd (merge_transcript_chunks tenth_store tenth_chunks)) = 0
   \<and> start_time (tenth_store 3) = 0
   \<and> start_time (fst (merge_transcript_chunks tenth_store tenth_chunks) 3)
        = 8106479329266892 / 9007199254740992
   \<and> distinct (concat (map segments example_chunks))
   \<and> float_store example_store
   \<and> timeline_offset example_store example_chunks 2 = 9 / 2
   \<and> duration_seconds (snd (merge_transcript_chunks example_store example_chunks)) = 4"
proof -
  have d: "distinct (concat (map segments tenth_chunks))"
    by (simp add: tenth_chunks_def)
  note f = tenth_store_float
  have i: "3 < length tenth_chunks" by (simp add: tenth_chunks_def)
  have a: "3 \<in> set (segments (tenth_chunks ! 3))" by (simp add: tenth_chunks_def)
  have n: "segments (tenth_chunks ! 3) \<noteq> []" by (simp add: tenth_chunks_def)
  have l: "length tenth_chunks = 4" by (simp add: tenth_chunks_def)
  have o3: "timeline_offset tenth_store tenth_chunks 3 = 8106479329266892 / 9007199254740992"
    by code_simp
  have e3: "end_time (tenth_store 3) = 3602879701896397 / 36028797018963968"
    by code_simp
  have r: "round53 (3602879701896397 / 36028797018963968 + 8106479329266892 / 9007199254740992)
      = 9007199254740991 / 9007199254740992"
    by code_simp
  have m: "Max ((\<lambda>a. end_time (tenth_store a)) ` set (segments (tenth_chunks ! 3)))
      = 3602879701896397 / 36028797018963968"
    by (simp add: tenth_chunks_def e3)
  note t = merge_timeline_offset [where cs = tenth_chunks and h = tenth_store, OF d f]
  from t have "\<forall>i<length tenth_chunks. \<forall>a\<in>set (segments (tenth_chunks ! i)).
          start_time (fst (merge_transcript_chunks tenth_store tenth_chunks) a)
            = round53 (start_time (tenth_store a) + timeline_offset tenth_store tenth_chunks i)
          \<and> end_time (fst (merge_transcript_chunks tenth_store tenth_chunks) a)
            = round53 (end_time (tenth_store a) + timeline_offset tenth_store tenth_chunks i)
          \<and> word (fst (merge_transcript_chunks tenth_store tenth_chunks) a) = word (tenth_store a)
          \<and> speaker (fst (merge_transcript_chunks tenth_store tenth_chunks) a) = speaker (tenth_store a)"
    by (rule conjunct1 [OF conjunct2])
  note rf = this
  from rf [rule_format, OF i a]
  have "end_time (fst (merge_transcript_chunks tenth_store tenth_chunks) 3)
            = round53 (end_time (tenth_store 3) + timeline_offset tenth_store tenth_chunks 3)"
    by (rule conjunct1 [OF conjunct2])
  then have 1: "end_time (fst (merge_transcript_chunks tenth_store tenth_chunks) 3)
        = 9007199254740991 / 9007199254740992"
    by (simp only: e3 o3 r)
  from t have "\<forall>i<length tenth_chunks. segments (tenth_chunks ! i) \<noteq> [] \<longrightarrow>
        timeline_offset tenth_store tenth_chunks (Suc i) =
          round53 (timeline_offset tenth_store tenth_chunks i
                   + Max ((\<lambda>a. end_time (tenth_store a)) ` set (segments (tenth_chunks ! i))))"
    by (rule conjunct1 [OF conjunct2 [OF conjunct2 [OF conjunct2]]])
  from this [rule_format, OF i n]
  have "timeline_offset tenth_store tenth_chunks (Suc 3)
      = round53 (8106479329266892 / 9007199254740992 + 3602879701896397 / 36028797018963968)"
    by (simp only: o3 m)
  moreover have "round53 (8106479329266892 / 9007199254740992 + 3602879701896397 / 36028797018963968)
      = 9007199254740991 / 9007199254740992"
    by code_simp
  moreover have "Suc 3 = 4" by simp
  ultimately have 2: "timeline_offset tenth_store tenth_chunks 4 = 9007199254740991 / 9007199254740992"
    by (simp only:)
  from t have "0 \<le> timeline_offset tenth_store tenth_chunks (length tenth_chunks) \<longrightarrow>
          duration_seconds (snd (merge_transcript_chunks tenth_store tenth_chunks))
            = \<lfloor>timeline_offset tenth_store tenth_chunks (length tenth_chunks)\<rfloor>"
    by (rule conjunct1 [OF conjunct2 [OF conjunct2 [OF conjunct2 [OF conjunct2]]]])
  moreover have "\<lfloor>9007199254740991 / 9007199254740992 :: rat\<rfloor> = 0"
    by (simp add: floor_eq_iff)
  ultimately have 3: "duration_seconds (snd (merge_transcript_chunks tenth_store tenth_chunks)) = 0"
    by (simp add: l 2)
  have s3: "start_time (tenth_store 3) = 0" by code_simp
  have r0: "round53 (0 + 8106479329266892 / 9007199254740992) = 8106479329266892 / 9007199254740992"
    by code_simp
  from rf [rule_format, OF i a]
  have "start_time (fst (merge_transcript_chunks tenth_store tenth_chunks) 3)
            = round53 (start_time (tenth_store 3) + timeline_offset tenth_store tenth_chunks 3)"
    by (rule conjunct1)
  then have 4: "start_time (fst (merge_transcript_chunks tenth_store tenth_chunks) 3)
        = 8106479329266892 / 9007199254740992"
    by (simp only: s3 o3 r0)
  have d': "distinct (concat (map segments example_chunks))"
    by (simp add: example_chunks_def)
  have "is_double 1" and "is_double (5 / 2)" and "is_double 2" by code_simp+
  then have f': "float_store example_store"
    unfolding example_store_def by (intro float_store_store_of) simp
  have l': "length example_chunks = 2" by (simp add: example_chunks_def)
  have o': "timeline_offset example_store example_chunks 2 = 9 / 2" by code_simp
  note t' = merge_timeline_offset [where cs = example_chunks and h = example_store, OF d' f']
  from t' have "0 \<le> timeline_offset example_store example_chunks (length example_chunks) \<longrightarrow>
          duration_seconds (snd (merge_transcript_chunks example_store example_chunks))
            = \<lfloor>timeline_offset example_store example_chunks (length example_chunks)\<rfloor>"
    by (rule conjunct1 [OF conjunct2 [OF conjunct2 [OF conjunct2 [OF conjunct2]]]])
  moreover have "\<lfloor>9 / 2 :: rat\<rfloor> = 4" by (simp add: floor_eq_iff)
  ultimately have 5: "duration_seconds (snd (merge_transcript_chunks example_store example_chunks)) = 4"
    by (simp add: l' o')
  from d f o3 e3 1 2 3 s3 4 d' f' o' 5 show ?thesis by - (intro conjI; assumption)
qed

subsection \<open>Speaker count\<close>

lemma Max_insert_0:
  fixes S :: "int set"
  assumes "finite S" "S \<noteq> {}" "\<forall>x\<in>S. 0 \<le> x"
  shows "Max (insert 0 S) = Max S"
proof -
  from assms have "0 \<le> Max S" by (meson Max_in)
  with assms show ?thesis by (simp add: max_def)
qed

lemma merge_speaker_count_Max:
  "result_speaker_count (snd (merge_transcript_chunks h cs)) = Max (insert 0 (speaker_count ` set cs))"
  by (simp add: speaker_count_merge max_speaker_count_merge_loop initial_state_def)

text \<open>
  Claim C5.  The returned speaker count is the largest \<open>speaker_count\<close> of the chunk
  results, the maximum starting from 0: for a non-empty sequence of (non-negative) counts
  it is their maximum, for the empty sequence it is 0, and for the counts 2, 5, 3 it is 5.
\<close>

theorem merge_speaker_count:
  "result_speaker_count (snd (merge_transcript_chunks h cs)) = Max (insert 0 (speaker_count ` set cs))
   \<and> (cs \<noteq> [] \<and> (\<forall>c\<in>set cs. 0 \<le> speaker_count c) \<longrightarrow>
        result_speaker_count (snd (merge_transcript_chunks h cs)) = Max (speaker_count ` set cs))
   \<and> (cs = [] \<longrightarrow> result_speaker_count (snd (merge_transcript_chunks h cs)) = 0)
   \<and> (map speaker_count cs = [2, 5, 3] \<longrightarrow>
        result_speaker_count (snd (merge_transcript_chunks h cs)) = 5)"
proof (intro conjI impI)
  show "result_speaker_count (snd (merge_transcript_chunks h cs)) = Max (insert 0 (speaker_count ` set cs))"
    by (rule merge_speaker_count_Max)
next
  assume "cs \<noteq> [] \<and> (\<forall>c\<in>set cs. 0 \<le> speaker_count c)"
  then have "Max (insert 0 (speaker_count ` set cs)) = Max (speaker_count ` set cs)"
    by (intro Max_insert_0) auto
  then show "result_speaker_count (snd (merge_transcript_chunks h cs)) = Max (speaker_count ` set cs)"
    by (simp add: merge_speaker_count_Max)
next
  assume "cs = []"
  then show "result_speaker_count (snd (merge_transcript_chunks h cs)) = 0"
    by (simp add: merge_speaker_count_Max)
next
  assume "map speaker_count cs = [2, 5, 3]"
  then have "set (map speaker_count cs) = {2, 5, 3}" by simp
  then have "speaker_count ` set cs = {2, 5, 3}" by simp
  then show "result_speaker_count (snd (merge_transcript_chunks h cs)) = 5"
    by (simp add: merge_speaker_count_Max)
qed

theorem merge_speaker_count_witness:
  "map speaker_count counted_chunks = [2, 5, 3]
   \<and> counted_chunks \<noteq> []
   \<and> result_speaker_count (snd (merge_transcript_chunks example_store counted_chunks)) = 5
   \<and> result_speaker_count (snd (merge_transcript_chunks example_store counted_chunks))
        = Max (speaker_count ` set counted_chunks)"
proof -
  have m: "map speaker_count counted_chunks = [2, 5, 3]"
    by (simp add: counted_chunks_def)
  have n: "counted_chunks \<noteq> [] \<and> (\<forall>c\<in>set counted_chunks. 0 \<le> speaker_count c)"
    by (simp add: counted_chunks_def)
  from merge_speaker_count [of example_store counted_chunks]
  have a: "counted_chunks \<noteq> [] \<and> (\<forall>c\<in>set counted_chunks. 0 \<le> speaker_count c) \<longrightarrow>
        result_speaker_count (snd (merge_transcript_chunks example_store counted_chunks))
          = Max (speaker_count ` set counted_chunks)"
    and b: "map speaker_count counted_chunks = [2, 5, 3] \<longrightarrow>
        result_speaker_count (snd (merge_transcript_chunks example_store counted_chunks)) = 5"
    by (rule conjunct1 [OF conjunct2], rule conjunct2 [OF conjunct2 [OF conjunct2]])
  from a n have a': "result_speaker_count (snd (merge_transcript_chunks example_store counted_chunks))
          = Max (speaker_count ` set counted_chunks)" by (rule mp)
  from b m have b': "result_speaker_count (snd (merge_transcript_chunks example_store counted_chunks)) = 5"
    by (rule mp)
  from n have n1: "counted_chunks \<noteq> []" and n2: "\<forall>c\<in>set counted_chunks. 0 \<le> speaker_count c"
    by (rule conjunct1, rule conjunct2)
  from m n1 b' a' show ?thesis by - (intro conjI; assumption)
qed

subsection \<open>Consistency of the rebasing\<close>

lemma merge_loop_no_words:
  assumes "\<forall>c\<in>set cs. segments c = []"
  shows "heap (merge_loop st cs) = heap st \<and> total_duration (merge_loop st cs) = total_duration st"
  using assms
  by (induction cs arbitrary: st) (simp_all add: merge_chunk_def)

lemma strip_Nil [simp]: "strip [] = []"
  by (simp add: strip_def)

lemma py_int_0 [simp]: "py_int 0 = 0"
  by (simp add: py_int_def)

lemma merge_single_heap: "fst (merge_transcript_chunks h [A]) = h"
  by (simp add: fst_merge merge_chunk_def initial_state_def adjust_segments_0)

text \<open>
  Claim C9, as amended.  Let \<open>A\<close> be a chunk result with words and \<open>B\<close> one whose first
  word starts at 0, both made of separate segment objects.  Merging \<open>[A]\<close> leaves the
  store as it was, and merging \<open>[A, B]\<close> afterwards puts the first word of \<open>B\<close> at the
  largest end time among the words of \<open>A\<close>.  That is the end time of the last word of \<open>A\<close>
  when no word of \<open>A\<close> ends later than the last one, and need not be otherwise.
\<close>

theorem rebase_consistency:
  assumes "distinct (segments A @ segments B)"
    and "segments A \<noteq> []" and "segments B \<noteq> []"
    and "start_time (h (hd (segments B))) = 0"
  shows "fst (merge_transcript_chunks h [A]) = h
    \<and> start_time (fst (merge_transcript_chunks (fst (merge_transcript_chunks h [A])) [A, B]) (hd (segments B)))
        = Max ((\<lambda>a. end_time (fst (merge_transcript_chunks h [A]) a)) ` set (segments A))
    \<and> ((\<forall>a\<in>set (segments A). end_time (h a) \<le> end_time (h (last (segments A)))) \<longrightarrow>
        start_time (fst (merge_transcript_chunks (fst (merge_transcript_chunks h [A])) [A, B]) (hd (segments B)))
        = end_time (fst (merge_transcript_chunks h [A]) (last (segments A))))"
proof -
  let ?cs = "[A, B]"
  let ?M = "Max ((\<lambda>a. end_time (h a)) ` set (segments A))"
  have d: "distinct (concat (map segments ?cs))" using assms(1) by simp
  have "end_time (heap (merge_loop (initial_state h) (take (Suc 0) ?cs)) b) = end_time (h b)"
    if "b \<in> set (segments (?cs ! 0))" for b
    using heap_after_chunk [OF d _ that, of h] by (simp add: timeline_offset_0)
  then have "(\<lambda>b. end_time (heap (merge_loop (initial_state h) (take (Suc 0) ?cs)) b)) ` set (segments (?cs ! 0))
      = (\<lambda>b. end_time (h b)) ` set (segments (?cs ! 0))"
    by (intro image_cong refl)
  then have off: "timeline_offset h ?cs 1 = ?M"
    using assms(2) timeline_offset_Suc [of 0 ?cs h] by simp
  have "hd (segments B) \<in> set (segments (?cs ! 1))" using assms(3) by simp
  then have "heap (merge_loop (initial_state h) ?cs) (hd (segments B))
      = shift (timeline_offset h ?cs 1) (h (hd (segments B)))"
    by (intro heap_final[OF d]) simp_all
  then have "start_time (fst (merge_transcript_chunks h ?cs) (hd (segments B)))
      = start_time (shift ?M (h (hd (segments B))))"
    by (simp only: fst_merge off)
  then have s: "start_time (fst (merge_transcript_chunks h ?cs) (hd (segments B))) = ?M"
    by (simp add: assms(4))
  have l: "(\<forall>a\<in>set (segments A). end_time (h a) \<le> end_time (h (last (segments A)))) \<longrightarrow>
      ?M = end_time (h (last (segments A)))"
  proof
    assume le: "\<forall>a\<in>set (segments A). end_time (h a) \<le> end_time (h (last (segments A)))"
    show "?M = end_time (h (last (segments A)))"
    proof (rule Max_eqI)
      show "finite ((\<lambda>a. end_time (h a)) ` set (segments A))" by simp
      show "\<And>y. y \<in> (\<lambda>a. end_time (h a)) ` set (segments A) \<Longrightarrow> y \<le> end_time (h (last (segments A)))"
        using le by auto
      show "end_time (h (last (segments A))) \<in> (\<lambda>a. end_time (h a)) ` set (segments A)"
        using assms(2) by simp
    qed
  qed
  show ?thesis
    using s l by (simp add: merge_single_heap)
qed

theorem rebase_consistency_witness:
  "distinct (segments (example_chunks ! 0) @ segments (example_chunks ! 1))
   \<and> segments (example_chunks ! 0) \<noteq> [] \<and> segments (example_chunks ! 1) \<noteq> []
   \<and> start_time (example_store (hd (segments (example_chunks ! 1)))) = 0
   \<and> start_time (fst (merge_transcript_chunks (fst (merge_transcript_chunks example_store [example_chunks ! 0]))
        [example_chunks ! 0, example_chunks ! 1]) (hd (segments (example_chunks ! 1))))
      = end_time (fst (merge_transcript_chunks example_store [example_chunks ! 0]) (last (segments (example_chunks ! 0))))"
proof -
  let ?A = "example_chunks ! 0" and ?B = "example_chunks ! 1"
  have 1: "distinct (segments ?A @ segments ?B)" by (simp add: example_chunks_def)
  have 2: "segments ?A \<noteq> []" by (simp add: example_chunks_def)
  have 3: "segments ?B \<noteq> []" by (simp add: example_chunks_def)
  have 4: "start_time (example_store (hd (segments ?B))) = 0"
    by (simp add: example_chunks_def example_store_def store_of_def)
  have 5: "\<forall>a\<in>set (segments ?A). end_time (example_store a) \<le> end_time (example_store (last (segments ?A)))"
    by (simp add: example_chunks_def example_store_def store_of_def)
  note t = rebase_consistency [where A = ?A and B = ?B and h = example_store, OF 1 2 3 4]
  from t have "(\<forall>a\<in>set (segments ?A). end_time (example_store a) \<le> end_time (example_store (last (segments ?A)))) \<longrightarrow>
        start_time (fst (merge_transcript_chunks (fst (merge_transcript_chunks example_store [?A])) [?A, ?B]) (hd (segments ?B)))
        = end_time (fst (merge_transcript_chunks example_store [?A]) (last (segments ?A)))"
    by (rule conjunct2 [OF conjunct2])
  from this 5 have 6: "start_time (fst (merge_transcript_chunks (fst (merge_transcript_chunks example_store [?A])) [?A, ?B]) (hd (segments ?B)))
        = end_time (fst (merge_transcript_chunks example_store [?A]) (last (segments ?A)))"
    by (rule mp)
  from 1 2 3 4 6 show ?thesis by - (intro conjI; assumption)
qed

theorem rebase_consistency_counterexample:
  "segments overlap_A \<noteq> [] \<and> start_time (overlap_store (hd (segments overlap_B))) = 0
   \<and> start_time (fst (merge_transcript_chunks (fst (merge_transcript_chunks overlap_store [overlap_A]))
        [overlap_A, overlap_B]) (hd (segments overlap_B))) = 5
   \<and> end_time (fst (merge_transcript_chunks overlap_store [overlap_A]) (last (segments overlap_A))) = 2"
  by code_simp

subsection \<open>The segments of the caller\<close>






subsection \<open>Rendering\<close>

lemma join_with_Cons:
  "join_with sep (x # xs) = x @ concat (map (\<lambda>y. sep @ y) xs)"
  by (induction xs arbitrary: x) simp_all

lemma render_turns_Cons:
  "render_turns (t # ts) = render_turn t @ concat (map (\<lambda>u. [CHR 0x0A] @ render_turn u) ts)"
  by (simp add: render_turns_def join_with_Cons comp_def)

lemma render_turn_Cons:
  "render_turn (n, w # ws) = speaker_label n @ w @ '' '' @ concat (map (\<lambda>w. w @ '' '') ws)"
  by (simp add: render_turn_def)

lemma render_loop_Some:
  "fst (render_loop ss (t, Some n)) =
     t @ (case turns ss of
            [] \<Rightarrow> []
          | (m, ws) # ts \<Rightarrow>
              (if m = n then concat (map (\<lambda>w. w @ '' '') ws) else [CHR 0x0A] @ render_turn (m, ws))
              @ concat (map (\<lambda>u. [CHR 0x0A] @ render_turn u) ts))"
proof (induction ss arbitrary: t n)
  case Nil
  then show ?case by simp
next
  case (Cons s ss)
  show ?case
  proof (cases "turns ss")
    case Nil
    with Cons show ?thesis
      by (simp add: render_turn_def)
  next
    case (Cons u us)
    obtain m ws where u: "u = (m, ws)" by (cases u)
    with Cons Cons.IH show ?thesis
      by (simp add: render_turn_Cons)
  qed
qed

lemma render_loop_None:
  "fst (render_loop ss ([], None)) = render_turns (turns ss)"
proof (cases ss)
  case Nil
  then show ?thesis by (simp add: render_turns_def)
next
  case (Cons s ss')
  show ?thesis
  proof (cases "turns ss'")
    case Nil
    with Cons show ?thesis
      by (simp add: render_loop_Some render_turns_def render_turn_def)
  next
    case c: (Cons u us)
    obtain m ws where u: "u = (m, ws)" by (cases u)
    with Cons c show ?thesis
      by (simp add: render_loop_Some render_turns_Cons render_turn_Cons)
  qed
qed

lemma turns_distinct_adj: "distinct_adj (map fst (turns ss))"
proof (induction ss)
  case Nil
  then show ?case by simp
next
  case (Cons s ss)
  then show ?case
    by (cases "turns ss") (auto split: if_splits)
qed

lemma turns_words: "concat (map snd (turns ss)) = map word ss"
proof (induction ss)
  case Nil
  then show ?case by simp
next
  case (Cons s ss)
  then show ?case
    by (cases "turns ss") (auto split: if_splits)
qed

lemma turns_speakers:
  "concat (map (\<lambda>t. replicate (length (snd t)) (fst t)) (turns ss)) = map speaker ss"
proof (induction ss)
  case Nil
  then show ?case by simp
next
  case (Cons s ss)
  then show ?case
    by (cases "turns ss") (auto split: if_splits)
qed

lemma turns_nonempty: "[] \<notin> set (map snd (turns ss))"
proof (induction ss)
  case Nil
  then show ?case by simp
next
  case (Cons s ss)
  then show ?case
    by (cases "turns ss") (auto split: if_splits)
qed

lemma text_merge:
  "transcript_text (snd (merge_transcript_chunks h cs)) =
     strip (fst (render_loop
       (map (fst (merge_transcript_chunks h cs))
          (sort_key (\<lambda>a. start_time (fst (merge_transcript_chunks h cs) a)) (concat (map segments cs))))
       ([], None)))"
  by (simp add: merge_transcript_chunks_def Let_def case_prod_beta all_segments_merge_loop initial_state_def)

lemma render_turns_explicit:
  "render_turns ts = join_with [CHR 0x0A]
     (map (\<lambda>t. ''Speaker '' @ str_int (fst t) @ '': '' @ concat (map (\<lambda>w. w @ '' '') (snd t))) ts)"
proof -
  have "render_turn = (\<lambda>t. ''Speaker '' @ str_int (fst t) @ '': '' @ concat (map (\<lambda>w. w @ '' '') (snd t)))"
    by (rule ext) (simp add: render_turn_def speaker_label_def)
  then show ?thesis by (simp only: render_turns_def)
qed

text \<open>
  Claim C6, as amended.  The words are walked in the order of a stable sort of all segments
  by their start time in the returned (rebased) store: the walk is sorted, it is a
  rearrangement of the segments in chunk and word order, and segments with equal start
  times keep that order.  The speaker turns of the walk have different tags when
  consecutive, none is empty, and together they are exactly the walked words and tags.  The
  text is made of one line for each turn, the lines joined by a newline: the label
  \<open>Speaker N: \<close> and then the words of the turn, each word followed by one space.  So a
  space stands at the end of every line, where words joined by single spaces would leave
  none; \<open>strip\<close> removes it from the last line only.
\<close>

theorem merge_rendering:
  "let h' = fst (merge_transcript_chunks h cs);
       walk = sort_key (\<lambda>a. start_time (h' a)) (concat (map segments cs));
       ts = turns (map h' walk)
   in sorted (map (\<lambda>a. start_time (h' a)) walk)
      \<and> mset walk = mset (concat (map segments cs))
      \<and> (\<forall>k. filter (\<lambda>a. start_time (h' a) = k) walk
               = filter (\<lambda>a. start_time (h' a) = k) (concat (map segments cs)))
      \<and> transcript_text (snd (merge_transcript_chunks h cs))
          = strip (join_with [CHR 0x0A]
              (map (\<lambda>t. ''Speaker '' @ str_int (fst t) @ '': '' @ concat (map (\<lambda>w. w @ '' '') (snd t))) ts))
      \<and> distinct_adj (map fst ts)
      \<and> [] \<notin> set (map snd ts)
      \<and> concat (map snd ts) = map (\<lambda>a. word (h' a)) walk
      \<and> concat (map (\<lambda>t. replicate (length (snd t)) (fst t)) ts) = map (\<lambda>a. speaker (h' a)) walk"
  unfolding Let_def
proof (intro conjI allI)
  let ?h = "fst (merge_transcript_chunks h cs)"
  let ?walk = "sort_key (\<lambda>a. start_time (?h a)) (concat (map segments cs))"
  show "sorted (map (\<lambda>a. start_time (?h a)) ?walk)" by (rule sorted_sort_key)
  show "mset ?walk = mset (concat (map segments cs))" by (rule mset_sort)
  show "filter (\<lambda>a. start_time (?h a) = k) ?walk = filter (\<lambda>a. start_time (?h a) = k) (concat (map segments cs))" for k
    by (rule sort_key_stable)
  show "transcript_text (snd (merge_transcript_chunks h cs))
      = strip (join_with [CHR 0x0A]
          (map (\<lambda>t. ''Speaker '' @ str_int (fst t) @ '': '' @ concat (map (\<lambda>w. w @ '' '') (snd t)))
             (turns (map ?h ?walk))))"
    by (simp only: text_merge render_loop_None render_turns_explicit)
  show "distinct_adj (map fst (turns (map ?h ?walk)))" by (rule turns_distinct_adj)
  show "[] \<notin> set (map snd (turns (map ?h ?walk)))" by (rule turns_nonempty)
  show "concat (map snd (turns (map ?h ?walk))) = map (\<lambda>a. word (?h a)) ?walk"
    by (simp add: turns_words comp_def)
  show "concat (map (\<lambda>t. replicate (length (snd t)) (fst t)) (turns (map ?h ?walk))) = map (\<lambda>a. speaker (?h a)) ?walk"
    by (simp add: turns_speakers comp_def)
qed

theorem merge_rendering_witness:
  "transcript_text (snd (merge_transcript_chunks example_store example_chunks))
     = ''Speaker 2: good morning '' @ [CHR 0x0A] @ ''Speaker 1: hello''"
proof -
  from merge_rendering [of example_store example_chunks]
  have "transcript_text (snd (merge_transcript_chunks example_store example_chunks))
     = strip (join_with [CHR 0x0A]
         (map (\<lambda>t. ''Speaker '' @ str_int (fst t) @ '': '' @ concat (map (\<lambda>w. w @ '' '') (snd t)))
            (turns (map (fst (merge_transcript_chunks example_store example_chunks))
              (sort_key (\<lambda>a. start_time (fst (merge_transcript_chunks example_store example_chunks) a))
                 (concat (map segments example_chunks)))))))"
    unfolding Let_def by (rule conjunct1 [OF conjunct2 [OF conjunct2 [OF conjunct2]]])
  also have "\<dots> = ''Speaker 2: good morning '' @ [CHR 0x0A] @ ''Speaker 1: hello''"
    by code_simp
  finally show ?thesis .
qed

text \<open>The claim as stated fails: the text of the example has a space before the newline,
  and is not the text with the words of a turn joined by single spaces.\<close>

theorem merge_rendering_counterexample:
  "transcript_text (snd (merge_transcript_chunks example_store example_chunks))
     = ''Speaker 2: good morning '' @ [CHR 0x0A] @ ''Speaker 1: hello''
   \<and> joined_text (map (fst (merge_transcript_chunks example_store example_chunks))
          (sort_key (\<lambda>a. start_time (fst (merge_transcript_chunks example_store example_chunks) a))
             (concat (map segments example_chunks))))
     = ''Speaker 2: good morning'' @ [CHR 0x0A] @ ''Speaker 1: hello''
   \<and> transcript_text (snd (merge_transcript_chunks example_store example_chunks))
     \<noteq> joined_text (map (fst (merge_transcript_chunks example_store example_chunks))
          (sort_key (\<lambda>a. start_time (fst (merge_transcript_chunks example_store example_chunks) a))
             (concat (map segments example_chunks))))"
  by code_simp

section \<open>Properties of the segmentation\<close>

lemma group_loop_export:
  "group_loop export segs (cur, map export gs) =
     (fst (group_loop (\<lambda>x. x) segs (cur, gs)), map export (snd (group_loop (\<lambda>x. x) segs (cur, gs))))"
proof (induction segs arbitrary: cur gs)
  case Nil
  then show ?case by simp
next
  case (Cons a segs)
  have "map export gs @ [export cur] = map export (gs @ [cur])" by simp
  then show ?case
    using Cons [of "cur @ a" gs] Cons [of a gs] Cons [of a "gs @ [cur]"]
    by (simp del: map_append)
qed

lemma group_chunks_export:
  "group_chunks export segs = map export (group_chunks (\<lambda>x. x) segs)"
  using group_loop_export [of export segs "[]" "[]"]
  by (simp add: group_chunks_def case_prod_beta)

lemma group_loop_concat:
  "concat (snd (group_loop (\<lambda>x. x) segs (cur, gs))) @ fst (group_loop (\<lambda>x. x) segs (cur, gs))
     = concat gs @ cur @ concat segs"
  by (induction segs arbitrary: cur gs) auto

lemma group_chunks_concat: "concat (group_chunks (\<lambda>x. x) segs) = concat segs"
  using group_loop_concat [of segs "[]" "[]"]
  by (auto simp: group_chunks_def case_prod_beta)

lemma group_loop_nonempty:
  "[] \<notin> set gs \<Longrightarrow> [] \<notin> set (snd (group_loop (\<lambda>x. x) segs (cur, gs)))"
  by (induction segs arbitrary: cur gs) auto

lemma group_chunks_nonempty: "[] \<notin> set (group_chunks (\<lambda>x. x) segs)"
  using group_loop_nonempty [of "[]" segs "[]"]
  by (auto simp: group_chunks_def case_prod_beta)

lemma group_loop_bounded:
  assumes "\<forall>s\<in>set segs. length s \<le> MAX_CHUNK_DURATION_MS"
    and "length cur \<le> MAX_CHUNK_DURATION_MS"
    and "\<forall>g\<in>set gs. length g \<le> MAX_CHUNK_DURATION_MS"
  shows "length (fst (group_loop (\<lambda>x. x) segs (cur, gs))) \<le> MAX_CHUNK_DURATION_MS
    \<and> (\<forall>g\<in>set (snd (group_loop (\<lambda>x. x) segs (cur, gs))). length g \<le> MAX_CHUNK_DURATION_MS)"
  using assms
proof (induction segs arbitrary: cur gs)
  case Nil
  then show ?case by simp
next
  case (Cons a segs)
  from Cons.prems(1) have a: "length a \<le> MAX_CHUNK_DURATION_MS"
    and rest: "\<forall>s\<in>set segs. length s \<le> MAX_CHUNK_DURATION_MS"
    by simp_all
  show ?case
  proof (cases "length cur + length a \<le> MAX_CHUNK_DURATION_MS")
    case True
    then have "length (cur @ a) \<le> MAX_CHUNK_DURATION_MS" by simp
    from Cons.IH [OF rest this Cons.prems(3)] True show ?thesis by simp
  next
    case False
    have "\<forall>g\<in>set (if length cur > 0 then gs @ [cur] else gs). length g \<le> MAX_CHUNK_DURATION_MS"
      using Cons.prems(2,3) by simp
    from Cons.IH [OF rest a this] False show ?thesis by simp
  qed
qed

lemma group_chunks_bounded:
  assumes "\<forall>s\<in>set segs. length s \<le> MAX_CHUNK_DURATION_MS"
  shows "\<forall>g\<in>set (group_chunks (\<lambda>x. x) segs). length g \<le> MAX_CHUNK_DURATION_MS"
  using group_loop_bounded [OF assms, of "[]" "[]"]
  by (auto simp: group_chunks_def case_prod_beta)

text \<open>
  Claim C2.  For a decodable recording whose normalised audio is at most
  \<open>MAX_CHUNK_DURATION_MS\<close> long, the result is exactly one chunk, the export of the whole
  normalised audio, whatever \<open>split_on_silence\<close> would do: it is not consulted.
\<close>

theorem short_audio_single_chunk:
  assumes "decode env audio_file = Inr audio"
    and "length audio \<le> MAX_CHUNK_DURATION_MS"
  shows "convert_and_split_audio (env\<lparr>split_on_silence := s\<rparr>) audio_file = Inr [export_flac env audio]"
  using assms by (simp add: convert_and_split_audio_def)

text \<open>
  Claim C3, as amended.  A decodable recording of at most \<open>MAX_CHUNK_DURATION_MS\<close> is one
  chunk, the export of the whole normalised audio.  For a longer one the chunks are the
  exports of non-empty groups of audio, and the groups laid end to end are exactly the
  segments returned by \<open>split_on_silence\<close> laid end to end, in their order: no returned
  segment is dropped, repeated or reordered, and the chunk durations add up to the
  durations of the returned segments.  Audio that \<open>split_on_silence\<close> does not return is
  in no chunk.
\<close>

theorem chunks_cover_segments:
  assumes "decode env audio_file = Inr audio"
  shows "(length audio \<le> MAX_CHUNK_DURATION_MS \<longrightarrow>
            convert_and_split_audio env audio_file = Inr [export_flac env audio])
    \<and> (MAX_CHUNK_DURATION_MS < length audio \<longrightarrow>
            convert_and_split_audio env audio_file
              = Inr (map (export_flac env) (group_chunks (\<lambda>x. x) (split_on_silence env audio)))
          \<and> concat (group_chunks (\<lambda>x. x) (split_on_silence env audio)) = concat (split_on_silence env audio)
          \<and> [] \<notin> set (group_chunks (\<lambda>x. x) (split_on_silence env audio))
          \<and> sum_list (map length (group_chunks (\<lambda>x. x) (split_on_silence env audio)))
              = sum_list (map length (split_on_silence env audio)))"
proof (intro conjI impI)
  assume "length audio \<le> MAX_CHUNK_DURATION_MS"
  then show "convert_and_split_audio env audio_file = Inr [export_flac env audio]"
    using assms by (simp add: convert_and_split_audio_def)
next
  assume "MAX_CHUNK_DURATION_MS < length audio"
  then show "convert_and_split_audio env audio_file
           = Inr (map (export_flac env) (group_chunks (\<lambda>x. x) (split_on_silence env audio)))"
    using assms by (simp add: convert_and_split_audio_def group_chunks_export [of "export_flac env"])
next
  show "concat (group_chunks (\<lambda>x. x) (split_on_silence env audio)) = concat (split_on_silence env audio)"
    by (rule group_chunks_concat)
next
  show "[] \<notin> set (group_chunks (\<lambda>x. x) (split_on_silence env audio))"
    by (rule group_chunks_nonempty)
next
  have "length (concat (group_chunks (\<lambda>x. x) (split_on_silence env audio)))
      = length (concat (split_on_silence env audio))"
    by (simp only: group_chunks_concat)
  then show "sum_list (map length (group_chunks (\<lambda>x. x) (split_on_silence env audio)))
        = sum_list (map length (split_on_silence env audio))"
    by (simp only: length_concat)
qed

lemma group_chunks_single:
  "a \<noteq> [] \<Longrightarrow> group_chunks export [a] = [export a]"
  by (simp add: group_chunks_def)

lemma group_chunks_two_fit:
  "a \<noteq> [] \<Longrightarrow> length a + length b \<le> MAX_CHUNK_DURATION_MS \<Longrightarrow>
   group_chunks export [a, b] = [export (a @ b)]"
  by (simp add: group_chunks_def)

theorem short_audio_single_chunk_witness:
  "length short_recording \<le> MAX_CHUNK_DURATION_MS
   \<and> convert_and_split_audio (example_env\<lparr>split_on_silence := (\<lambda>audio. [])\<rparr>) short_recording
       = Inr [short_recording]"
proof -
  have d: "decode example_env short_recording = Inr short_recording"
    by (simp add: example_env_def)
  have l: "length short_recording \<le> MAX_CHUNK_DURATION_MS"
    by (simp add: short_recording_def MAX_CHUNK_DURATION_MS_def)
  have e: "export_flac example_env short_recording = short_recording"
    by (simp add: example_env_def)
  from short_audio_single_chunk [OF d l, of "\<lambda>audio. []"] l show ?thesis
    by (simp only: e simp_thms)
qed

lemma pause_recording_length: "length pause_recording = 300001"
  by (simp add: pause_recording_def)

lemma pause_segments:
  "split_on_silence pause_env pause_recording
     = [replicate 99500 1 @ replicate 500 0, replicate 500 0 @ replicate 99501 1]"
  by (simp add: pause_env_def example_env_def pause_recording_def)

lemma pause_chunks:
  "convert_and_split_audio pause_env pause_recording
     = Inr [(replicate 99500 1 @ replicate 500 0) @ (replicate 500 0 @ replicate 99501 1)]"
proof -
  have d: "decode pause_env pause_recording = Inr pause_recording"
    and e: "export_flac pause_env = (\<lambda>audio. audio)"
    by (simp_all add: pause_env_def example_env_def)
  have l: "\<not> length pause_recording \<le> MAX_CHUNK_DURATION_MS"
    by (simp add: pause_recording_length MAX_CHUNK_DURATION_MS_def)
  have g: "group_chunks (\<lambda>audio. audio) [replicate 99500 (1::int) @ replicate 500 0, replicate 500 0 @ replicate 99501 1]
      = [(replicate 99500 1 @ replicate 500 0) @ (replicate 500 0 @ replicate 99501 1)]"
    by (rule group_chunks_two_fit) (simp_all add: MAX_CHUNK_DURATION_MS_def)
  show ?thesis
    by (simp only: convert_and_split_audio_def d sum.case l if_False e pause_segments g)
qed

theorem chunks_cover_segments_counterexample:
  "decode pause_env pause_recording = Inr pause_recording
   \<and> length pause_recording = 300001
   \<and> convert_and_split_audio pause_env pause_recording
       = Inr [(replicate 99500 1 @ replicate 500 0) @ (replicate 500 0 @ replicate 99501 1)]
   \<and> length ((replicate 99500 (1::int) @ replicate 500 0) @ (replicate 500 0 @ replicate 99501 1)) = 200001"
proof (intro conjI)
  show "decode pause_env pause_recording = Inr pause_recording"
    by (simp add: pause_env_def example_env_def)
  show "length pause_recording = 300001" by (rule pause_recording_length)
  show "convert_and_split_audio pause_env pause_recording
       = Inr [(replicate 99500 1 @ replicate 500 0) @ (replicate 500 0 @ replicate 99501 1)]"
    by (rule pause_chunks)
  show "length ((replicate 99500 (1::int) @ replicate 500 0) @ (replicate 500 0 @ replicate 99501 1)) = 200001"
    by simp
qed

theorem chunks_cover_segments_witness:
  "MAX_CHUNK_DURATION_MS < length pause_recording
   \<and> convert_and_split_audio pause_env pause_recording
       = Inr (map (export_flac pause_env) (group_chunks (\<lambda>x. x) (split_on_silence pause_env pause_recording)))
   \<and> concat (group_chunks (\<lambda>x. x) (split_on_silence pause_env pause_recording))
       = (replicate 99500 1 @ replicate 500 0) @ (replicate 500 0 @ replicate 99501 1)
   \<and> length short_recording \<le> MAX_CHUNK_DURATION_MS
   \<and> convert_and_split_audio pause_env short_recording = Inr [export_flac pause_env short_recording]"
proof -
  have d: "decode pause_env pause_recording = Inr pause_recording"
    and d': "decode pause_env short_recording = Inr short_recording"
    by (simp_all add: pause_env_def example_env_def)
  have l: "MAX_CHUNK_DURATION_MS < length pause_recording"
    by (simp add: pause_recording_length MAX_CHUNK_DURATION_MS_def)
  have l': "length short_recording \<le> MAX_CHUNK_DURATION_MS"
    by (simp add: short_recording_def MAX_CHUNK_DURATION_MS_def)
  from chunks_cover_segments [OF d]
  have "MAX_CHUNK_DURATION_MS < length pause_recording \<longrightarrow>
      convert_and_split_audio pause_env pause_recording
        = Inr (map (export_flac pause_env) (group_chunks (\<lambda>x. x) (split_on_silence pause_env pause_recording)))
      \<and> concat (group_chunks (\<lambda>x. x) (split_on_silence pause_env pause_recording))
            = concat (split_on_silence pause_env pause_recording)
      \<and> [] \<notin> set (group_chunks (\<lambda>x. x) (split_on_silence pause_env pause_recording))
      \<and> sum_list (map length (group_chunks (\<lambda>x. x) (split_on_silence pause_env pause_recording)))
            = sum_list (map length (split_on_silence pause_env pause_recording))"
    by (rule conjunct2)
  from this l have t: "convert_and_split_audio pause_env pause_recording
        = Inr (map (export_flac pause_env) (group_chunks (\<lambda>x. x) (split_on_silence pause_env pause_recording)))
      \<and> concat (group_chunks (\<lambda>x. x) (split_on_silence pause_env pause_recording))
            = concat (split_on_silence pause_env pause_recording)
      \<and> [] \<notin> set (group_chunks (\<lambda>x. x) (split_on_silence pause_env pause_recording))
      \<and> sum_list (map length (group_chunks (\<lambda>x. x) (split_on_silence pause_env pause_recording)))
            = sum_list (map length (split_on_silence pause_env pause_recording))"
    by (rule mp)
  from t have 1: "convert_and_split_audio pause_env pause_recording
       = Inr (map (export_flac pause_env) (group_chunks (\<lambda>x. x) (split_on_silence pause_env pause_recording)))"
    by (rule conjunct1)
  from t have "concat (group_chunks (\<lambda>x. x) (split_on_silence pause_env pause_recording))
       = concat (split_on_silence pause_env pause_recording)"
    by (rule conjunct1 [OF conjunct2])
  then have 2: "concat (group_chunks (\<lambda>x. x) (split_on_silence pause_env pause_recording))
       = (replicate 99500 1 @ replicate 500 0) @ (replicate 500 0 @ replicate 99501 1)"
    by (simp only: pause_segments concat.simps append_Nil2)
  from chunks_cover_segments [OF d']
  have "length short_recording \<le> MAX_CHUNK_DURATION_MS \<longrightarrow>
      convert_and_split_audio pause_env short_recording = Inr [export_flac pause_env short_recording]"
    by (rule conjunct1)
  from this l' have 3: "convert_and_split_audio pause_env short_recording = Inr [export_flac pause_env short_recording]"
    by (rule mp)
  from l 1 2 l' 3 show ?thesis by - (intro conjI; assumption)
qed

text \<open>
  Claim C4 fails on the code.  For five minutes and one millisecond of continuous speech
  \<open>split_on_silence\<close> returns the recording as one segment, and the grouping loop exports
  it as one chunk of 300001 ms, above \<open>MAX_CHUNK_DURATION_MS\<close>.
\<close>

theorem oversized_chunk:
  "decode example_env speech_recording = Inr speech_recording
   \<and> split_on_silence example_env speech_recording = [speech_recording]
   \<and> convert_and_split_audio example_env speech_recording = Inr [speech_recording]
   \<and> length speech_recording = 300001
   \<and> MAX_CHUNK_DURATION_MS = 300000"
proof -
  have d: "decode example_env speech_recording = Inr speech_recording"
    and e: "export_flac example_env = (\<lambda>audio. audio)"
    and s: "split_on_silence example_env speech_recording = [speech_recording]"
    by (simp_all add: example_env_def)
  have n: "length speech_recording = 300001" by (simp add: speech_recording_def)
  have m: "MAX_CHUNK_DURATION_MS = 300000" by (simp add: MAX_CHUNK_DURATION_MS_def)
  have l: "\<not> length speech_recording \<le> MAX_CHUNK_DURATION_MS" by (simp add: n m)
  have "speech_recording \<noteq> []" using n by auto
  then have g: "group_chunks (\<lambda>audio. audio) [speech_recording] = [speech_recording]"
    by (rule group_chunks_single)
  have c: "convert_and_split_audio example_env speech_recording = Inr [speech_recording]"
    by (simp only: convert_and_split_audio_def d sum.case l if_False e s g)
  from d s c n m show ?thesis by - (intro conjI; assumption)
qed

section \<open>Properties of the pipeline\<close>

subsection \<open>Failure of a chunk\<close>

lemma transcribe_chunks_fails:
  assumes "i < length chunks"
    and "\<forall>st. transcribe_audio_chunk env (chunks ! i) language st = Inl e"
  shows "\<exists>e'. transcribe_chunks env language chunks (rs, st) = Inl e'"
  using assms
proof (induction chunks arbitrary: i rs st)
  case Nil
  then show ?case by simp
next
  case (Cons c chunks)
  show ?case
  proof (cases "transcribe_audio_chunk env c language st")
    case (Inl e')
    then show ?thesis by simp
  next
    case (Inr p)
    obtain r st' where p: "p = (r, st')" by (cases p)
    have "i \<noteq> 0"
      using Cons.prems(2) Inr by (cases i) auto
    then obtain k where k: "i = Suc k" by (cases i) auto
    with Cons.prems have "k < length chunks"
      and "\<forall>st. transcribe_audio_chunk env (chunks ! k) language st = Inl e"
      by simp_all
    from Cons.IH [OF this] show ?thesis
      by (simp add: Inr p)
  qed
qed

lemma transcribe_chunks_first_failure:
  assumes "i < length chunks"
    and "\<forall>st. transcribe_audio_chunk env (chunks ! i) language st = Inl e"
    and "\<forall>j<i. \<forall>st. \<exists>r st'. transcribe_audio_chunk env (chunks ! j) language st = Inr (r, st')"
  shows "transcribe_chunks env language chunks (rs, st) = Inl e"
  using assms
proof (induction chunks arbitrary: i rs st)
  case Nil
  then show ?case by simp
next
  case (Cons c chunks)
  show ?case
  proof (cases i)
    case 0
    with Cons.prems(2) show ?thesis by simp
  next
    case (Suc k)
    with Cons.prems(3) obtain r st' where ok: "transcribe_audio_chunk env c language st = Inr (r, st')"
      by fastforce
    from Suc Cons.prems have "k < length chunks"
      and "\<forall>st. transcribe_audio_chunk env (chunks ! k) language st = Inl e"
      and "\<forall>j<k. \<forall>st. \<exists>r st'. transcribe_audio_chunk env (chunks ! j) language st = Inr (r, st')"
      by auto
    from Cons.IH [OF this] show ?thesis
      by (simp add: ok)
  qed
qed

text \<open>
  Claim C7.  When the transcription of some chunk of the job raises, \<open>transcribe_audio_file\<close>
  returns an error and no result; when the upload succeeded and every earlier chunk was
  transcribed, the error returned is the error of that chunk, the first one to fail.
\<close>

theorem failed_chunk_fails_job:
  assumes "convert_and_split_audio env audio_file = Inr chunks"
    and "i < length chunks"
    and "\<forall>st. transcribe_audio_chunk env (chunks ! i) language st = Inl e"
  shows "(\<exists>e'. transcribe_audio_file env audio_file language filename st = Inl e')
    \<and> ((\<exists>uri. upload_audio_to_gcs env audio_file filename = Inr uri)
         \<and> (\<forall>j<i. \<forall>st. \<exists>r st'. transcribe_audio_chunk env (chunks ! j) language st = Inr (r, st'))
        \<longrightarrow> transcribe_audio_file env audio_file language filename st = Inl e)"
proof (intro conjI impI)
  from transcribe_chunks_fails [OF assms(2,3)]
  obtain e' where "transcribe_chunks env language chunks ([], st) = Inl e'" by blast
  then show "\<exists>e'. transcribe_audio_file env audio_file language filename st = Inl e'"
    by (cases "upload_audio_to_gcs env audio_file filename")
       (simp_all add: transcribe_audio_file_def assms(1))
next
  assume a: "(\<exists>uri. upload_audio_to_gcs env audio_file filename = Inr uri)
         \<and> (\<forall>j<i. \<forall>st. \<exists>r st'. transcribe_audio_chunk env (chunks ! j) language st = Inr (r, st'))"
  then obtain uri where u: "upload_audio_to_gcs env audio_file filename = Inr uri" by blast
  from a have "transcribe_chunks env language chunks ([], st) = Inl e"
    by (intro transcribe_chunks_first_failure [OF assms(2,3)]) blast
  then show "transcribe_audio_file env audio_file language filename st = Inl e"
    by (simp add: transcribe_audio_file_def assms(1) u)
qed

lemma group_chunks_two_split:
  "a \<noteq> [] \<Longrightarrow> b \<noteq> [] \<Longrightarrow> \<not> length a + length b \<le> MAX_CHUNK_DURATION_MS \<Longrightarrow>
   group_chunks export [a, b] = [export a, export b]"
  by (simp add: group_chunks_def)

lemma reject_chunks:
  "convert_and_split_audio reject_env long_recording = Inr [replicate 250000 1, replicate 150000 1]"
proof -
  have d: "decode reject_env long_recording = Inr long_recording"
    and e: "export_flac reject_env = (\<lambda>audio. audio)"
    and s: "split_on_silence reject_env long_recording = [replicate 250000 1, replicate 150000 1]"
    by (simp_all add: reject_env_def example_env_def long_recording_def)
  have l: "\<not> length long_recording \<le> MAX_CHUNK_DURATION_MS"
    by (simp add: long_recording_def MAX_CHUNK_DURATION_MS_def)
  have g: "group_chunks (\<lambda>audio. audio) [replicate 250000 (1::int), replicate 150000 1]
      = [replicate 250000 1, replicate 150000 1]"
    by (rule group_chunks_two_split) (simp_all add: MAX_CHUNK_DURATION_MS_def)
  show ?thesis
    by (simp only: convert_and_split_audio_def d sum.case l if_False e s g)
qed

theorem failed_chunk_fails_job_witness:
  "convert_and_split_audio reject_env long_recording = Inr [replicate 250000 1, replicate 150000 1]
   \<and> transcribe_audio_file reject_env long_recording ''en'' ''meeting.mp3'' start_state
       = Inl (ServiceError ''RemoteRejected'')"
proof -
  let ?chunks = "[replicate 250000 (1::int), replicate 150000 1]"
  have 1: "(1::nat) < length ?chunks" by simp
  have 2: "\<forall>st. transcribe_audio_chunk reject_env (?chunks ! 1) ''en'' st = Inl (ServiceError ''RemoteRejected'')"
    by (simp add: transcribe_audio_chunk_def reject_env_def)
  have 3: "\<exists>uri. upload_audio_to_gcs reject_env long_recording ''meeting.mp3'' = Inr uri"
    by (simp add: upload_audio_to_gcs_def reject_env_def example_env_def)
  have 4: "\<forall>j<1. \<forall>st. \<exists>r st'. transcribe_audio_chunk reject_env (?chunks ! j) ''en'' st = Inr (r, st')"
    by (simp add: transcribe_audio_chunk_def reject_env_def)
  note t = failed_chunk_fails_job [OF reject_chunks 1 2, where filename = "''meeting.mp3''" and st = start_state]
  from t have "(\<exists>uri. upload_audio_to_gcs reject_env long_recording ''meeting.mp3'' = Inr uri)
         \<and> (\<forall>j<1. \<forall>st. \<exists>r st'. transcribe_audio_chunk reject_env (?chunks ! j) ''en'' st = Inr (r, st'))
        \<longrightarrow> transcribe_audio_file reject_env long_recording ''en'' ''meeting.mp3'' start_state
              = Inl (ServiceError ''RemoteRejected'')"
    by (rule conjunct2)
  from this conjI [OF 3 4]
  have 5: "transcribe_audio_file reject_env long_recording ''en'' ''meeting.mp3'' start_state
              = Inl (ServiceError ''RemoteRejected'')"
    by (rule mp)
  from reject_chunks 5 show ?thesis by - (intro conjI; assumption)
qed

subsection \<open>The chunk results handed to the assembly\<close>

text \<open>The segment dictionaries of a run are stored at consecutive new addresses, so the
  chunk results that \<open>transcribe_audio_file\<close> passes to \<open>merge_transcript_chunks\<close> share no
  segment; their speaker counts are not negative, and 0 for a chunk without words.\<close>

lemma upt_shift: "[k ..< k + Suc m] = k # [Suc k ..< Suc k + m]"
  by (subst upt_rec) simp

lemma upt_append_mid: "i \<le> j \<Longrightarrow> j \<le> k \<Longrightarrow> [i..<j] @ [j..<k] = [i..<k]"
  using upt_add_eq_append [of i j "k - j"] by simp

lemma collect_words_segments:
  "fst (snd (collect_words ws (st, segs, n))) = segs @ [next_addr st ..< next_addr st + length ws]"
proof (induction ws arbitrary: st segs n)
  case Nil
  then show ?case by simp
next
  case (Cons w ws)
  show ?case
  proof -
    have "length (w # ws) = Suc (length ws)" by simp
    then show ?thesis
      by (simp only: collect_words.simps Cons upt_shift [of "next_addr st" "length ws"])
         (simp del: upt_Suc)
  qed
qed

lemma collect_words_next_addr:
  "next_addr (fst (collect_words ws (st, segs, n))) = next_addr st + length ws"
  by (induction ws arbitrary: st segs n) simp_all

lemma collect_words_count:
  "n \<le> snd (snd (collect_words ws (st, segs, n)))"
proof (induction ws arbitrary: st segs n)
  case Nil
  then show ?case by simp
next
  case (Cons w ws)
  let ?st = "st\<lparr>objects := (objects st)(next_addr st := segment_of w), next_addr := Suc (next_addr st)\<rparr>"
  have "n \<le> (if speaker_tag w > n then speaker_tag w else n)" by simp
  also have "\<dots> \<le> snd (snd (collect_words ws (?st, segs @ [next_addr st], if speaker_tag w > n then speaker_tag w else n)))"
    by (rule Cons)
  finally show ?case by simp
qed

lemma collect_results_alloc:
  assumes "collect_results response (st, segs, n) = Inr r"
  shows "fst (snd r) = segs @ [next_addr st ..< next_addr (fst r)]
   \<and> next_addr st \<le> next_addr (fst r)
   \<and> n \<le> snd (snd r)
   \<and> (next_addr (fst r) = next_addr st \<longrightarrow> snd (snd r) = n)"
  using assms
proof (induction response arbitrary: st segs n)
  case Nil
  then show ?case by auto
next
  case (Cons alts response)
  from Cons.prems obtain alt rest where a: "alts = alt # rest"
    by (cases alts) simp_all
  obtain st1 segs1 n1 where c: "collect_words alt (st, segs, n) = (st1, segs1, n1)"
    by (cases "collect_words alt (st, segs, n)")
  have w1: "segs1 = segs @ [next_addr st ..< next_addr st + length alt]"
    using collect_words_segments [of alt st segs n] c by simp
  have w2: "next_addr st1 = next_addr st + length alt"
    using collect_words_next_addr [of alt st segs n] c by simp
  have w3: "n \<le> n1"
    using collect_words_count [of n alt st segs] c by simp
  have w4: "alt = [] \<longrightarrow> n1 = n"
    using c by auto
  from Cons.prems a c have "collect_results response (st1, segs1, n1) = Inr r" by simp
  from Cons.IH [OF this]
  have i1: "fst (snd r) = segs1 @ [next_addr st1 ..< next_addr (fst r)]"
    and i2: "next_addr st1 \<le> next_addr (fst r)"
    and i3: "n1 \<le> snd (snd r)"
    and i4: "next_addr (fst r) = next_addr st1 \<longrightarrow> snd (snd r) = n1"
    by simp_all
  have u: "[next_addr st ..< next_addr st + length alt] @ [next_addr st + length alt ..< next_addr (fst r)]
      = [next_addr st ..< next_addr (fst r)]"
    using i2 w2 by (intro upt_append_mid) simp_all
  show ?case
  proof (intro conjI impI)
    show "fst (snd r) = segs @ [next_addr st ..< next_addr (fst r)]"
      using i1 w1 w2 u by simp
    show "next_addr st \<le> next_addr (fst r)" using i2 w2 by simp
    show "n \<le> snd (snd r)" using i3 w3 by simp
    assume "next_addr (fst r) = next_addr st"
    with i2 w2 have "alt = []" and "next_addr (fst r) = next_addr st1" by simp_all
    with i4 w4 show "snd (snd r) = n" by simp
  qed
qed

lemma transcribe_audio_chunk_alloc:
  assumes "transcribe_audio_chunk env chunk language st = Inr (r, st')"
  shows "segments r = [next_addr st ..< next_addr st']
    \<and> next_addr st \<le> next_addr st'
    \<and> 0 \<le> speaker_count r
    \<and> (segments r = [] \<longrightarrow> speaker_count r = 0)"
proof -
  from assms obtain response where R: "recognize env chunk language = Inr response"
    by (cases "recognize env chunk language") (simp_all add: transcribe_audio_chunk_def)
  from assms R obtain q where Q: "collect_results response (st, [], 0) = Inr q"
    by (cases "collect_results response (st, [], 0)") (simp_all add: transcribe_audio_chunk_def)
  obtain st1 segs1 n1 where q: "q = (st1, segs1, n1)" by (cases q)
  from assms R Q q have r: "segments r = segs1" "speaker_count r = n1" and s: "st' = st1"
    by (auto simp add: transcribe_audio_chunk_def)
  from collect_results_alloc [OF Q] q
  have 1: "segs1 = [next_addr st ..< next_addr st1]"
    and 2: "next_addr st \<le> next_addr st1"
    and 3: "0 \<le> n1"
    and 4: "next_addr st1 = next_addr st \<longrightarrow> n1 = 0"
    by simp_all
  show ?thesis
  proof (intro conjI impI)
    show "segments r = [next_addr st ..< next_addr st']" by (simp only: r 1 s)
    show "next_addr st \<le> next_addr st'" by (simp only: s 2)
    show "0 \<le> speaker_count r" by (simp only: r 3)
    assume "segments r = []"
    then have "[next_addr st ..< next_addr st1] = []" by (simp only: r 1 [symmetric])
    then have "next_addr st1 \<le> next_addr st" by auto
    with 2 have "next_addr st1 = next_addr st" by (rule order_antisym [rotated])
    with 4 show "speaker_count r = 0" by (simp only: r)
  qed
qed

lemma transcribe_chunks_alloc:
  assumes "transcribe_chunks env language chunks (rs, st) = Inr (rs', st')"
  shows "concat (map segments rs') = concat (map segments rs) @ [next_addr st ..< next_addr st']
    \<and> next_addr st \<le> next_addr st'
    \<and> length rs' = length rs + length chunks
    \<and> ((\<forall>r\<in>set rs. 0 \<le> speaker_count r \<and> (segments r = [] \<longrightarrow> speaker_count r = 0)) \<longrightarrow>
        (\<forall>r\<in>set rs'. 0 \<le> speaker_count r \<and> (segments r = [] \<longrightarrow> speaker_count r = 0)))"
  using assms
proof (induction chunks arbitrary: rs st)
  case Nil
  then show ?case by simp
next
  case (Cons c chunks)
  from Cons.prems obtain p where "transcribe_audio_chunk env c language st = Inr p"
    by (cases "transcribe_audio_chunk env c language st") simp_all
  then obtain r st1 where t: "transcribe_audio_chunk env c language st = Inr (r, st1)"
    by (cases p) simp
  with Cons.prems have "transcribe_chunks env language chunks (rs @ [r], st1) = Inr (rs', st')"
    by simp
  note i = Cons.IH [OF this]
  note a = transcribe_audio_chunk_alloc [OF t]
  from a have a1: "segments r = [next_addr st ..< next_addr st1]"
    and a2: "next_addr st \<le> next_addr st1"
    and a3: "0 \<le> speaker_count r \<and> (segments r = [] \<longrightarrow> speaker_count r = 0)"
    by simp_all
  from i have i1: "concat (map segments rs') = concat (map segments (rs @ [r])) @ [next_addr st1 ..< next_addr st']"
    and i2: "next_addr st1 \<le> next_addr st'"
    and i3: "length rs' = length (rs @ [r]) + length chunks"
    and i4: "(\<forall>r\<in>set (rs @ [r]). 0 \<le> speaker_count r \<and> (segments r = [] \<longrightarrow> speaker_count r = 0)) \<longrightarrow>
        (\<forall>r\<in>set rs'. 0 \<le> speaker_count r \<and> (segments r = [] \<longrightarrow> speaker_count r = 0))"
    by (rule conjunct1, rule conjunct1 [OF conjunct2], rule conjunct1 [OF conjunct2 [OF conjunct2]],
        rule conjunct2 [OF conjunct2 [OF conjunct2]])
  have u: "[next_addr st ..< next_addr st1] @ [next_addr st1 ..< next_addr st'] = [next_addr st ..< next_addr st']"
    using a2 i2 by (rule upt_append_mid)
  show ?case
  proof (intro conjI impI)
    have "concat (map segments rs') = concat (map segments rs) @ [next_addr st ..< next_addr st1] @ [next_addr st1 ..< next_addr st']"
      by (simp add: i1 a1)
    then show "concat (map segments rs') = concat (map segments rs) @ [next_addr st ..< next_addr st']"
      by (simp only: u)
    show "next_addr st \<le> next_addr st'" using a2 i2 by (rule order_trans)
    show "length rs' = length rs + length (c # chunks)" by (simp add: i3)
    assume "\<forall>r\<in>set rs. 0 \<le> speaker_count r \<and> (segments r = [] \<longrightarrow> speaker_count r = 0)"
    with a3 have "\<forall>r\<in>set (rs @ [r]). 0 \<le> speaker_count r \<and> (segments r = [] \<longrightarrow> speaker_count r = 0)"
      by simp
    with i4 show "\<forall>r\<in>set rs'. 0 \<le> speaker_count r \<and> (segments r = [] \<longrightarrow> speaker_count r = 0)"
      by (rule mp)
  qed
qed

lemma pipeline_chunk_results:
  assumes "transcribe_chunks env language chunks ([], st) = Inr (rs, st')"
  shows "distinct (concat (map segments rs))
    \<and> length rs = length chunks
    \<and> (\<forall>r\<in>set rs. 0 \<le> speaker_count r \<and> (segments r = [] \<longrightarrow> speaker_count r = 0))"
  using transcribe_chunks_alloc [OF assms] by simp

subsection \<open>A run without failure\<close>

lemma meeting_chunk_result:
  "transcribe_audio_chunk meeting_env chunk ''en'' start_state
     = Inr (\<lparr>segments = [0, 1, 2], speaker_count = 2, transcript = ''good morning hello''\<rparr>,
            \<lparr>objects = meeting_objects, next_addr = 3\<rparr>)"
  by (simp add: transcribe_audio_chunk_def meeting_env_def start_state_def segment_of_def
      meeting_objects_def numeral_3_eq_3 numeral_2_eq_2)

lemma meeting_merged:
  "snd (merge_transcript_chunks meeting_objects
          [\<lparr>segments = [0, 1, 2], speaker_count = 2, transcript = ''good morning hello''\<rparr>])
     = \<lparr>transcript_text = ''Speaker 2: good morning '' @ [CHR 0x0A] @ ''Speaker 1: hello'',
        result_speaker_count = 2, duration_seconds = 3\<rparr>"
  by code_simp

lemma meeting_transcribed:
  "map_sum (\<lambda>e. e) fst (transcribe_audio_file meeting_env short_recording ''en'' ''meeting.mp3'' start_state)
     = Inr (\<lparr>transcript_text = ''Speaker 2: good morning '' @ [CHR 0x0A] @ ''Speaker 1: hello'',
              result_speaker_count = 2, duration_seconds = 3\<rparr>,
             ''gs://meeting-transcription-audio/audio/6f1c/meeting.mp3'')"
proof -
  have u: "upload_audio_to_gcs meeting_env short_recording ''meeting.mp3''
      = Inr ''gs://meeting-transcription-audio/audio/6f1c/meeting.mp3''"
    by (simp add: upload_audio_to_gcs_def meeting_env_def example_env_def)
  have c: "convert_and_split_audio meeting_env short_recording = Inr [short_recording]"
    by (simp add: convert_and_split_audio_def meeting_env_def example_env_def short_recording_def
        MAX_CHUNK_DURATION_MS_def)
  have t: "transcribe_chunks meeting_env ''en'' [short_recording] ([], start_state)
      = Inr ([\<lparr>segments = [0, 1, 2], speaker_count = 2, transcript = ''good morning hello''\<rparr>],
             \<lparr>objects = meeting_objects, next_addr = 3\<rparr>)"
    by (simp add: meeting_chunk_result)
  have "transcribe_audio_file meeting_env short_recording ''en'' ''meeting.mp3'' start_state
      = (let (h, final_result) = merge_transcript_chunks meeting_objects
               [\<lparr>segments = [0, 1, 2], speaker_count = 2, transcript = ''good morning hello''\<rparr>]
         in Inr ((final_result, ''gs://meeting-transcription-audio/audio/6f1c/meeting.mp3''),
                 \<lparr>objects = meeting_objects, next_addr = 3\<rparr>\<lparr>objects := h\<rparr>))"
    by (simp only: transcribe_audio_file_def u c t sum.case prod.case pystate.select_convs)
  then show ?thesis
    by (simp only: Let_def case_prod_beta map_sum.simps fst_conv meeting_merged)
qed

subsection \<open>Chunks without words\<close>

lemma merge_wordless:
  assumes "\<forall>c\<in>set cs. segments c = []"
  shows "fst (merge_transcript_chunks h cs) = h"
    and "transcript_text (snd (merge_transcript_chunks h cs)) = []"
    and "duration_seconds (snd (merge_transcript_chunks h cs)) = 0"
proof -
  let ?st = "merge_loop (initial_state h) cs"
  from assms have segs: "concat (map segments cs) = []" by simp
  have h: "heap ?st = h" and d: "total_duration ?st = 0"
    using merge_loop_no_words [OF assms, of "initial_state h"] by (simp_all add: initial_state_def)
  have a: "all_segments ?st = []"
    by (simp add: all_segments_merge_loop segs initial_state_def)
  show "fst (merge_transcript_chunks h cs) = h" by (simp add: fst_merge h)
  show "transcript_text (snd (merge_transcript_chunks h cs)) = []"
    by (simp add: merge_transcript_chunks_def Let_def a)
  show "duration_seconds (snd (merge_transcript_chunks h cs)) = 0" by (simp add: duration_merge d)
qed

lemma transcript_result_eqI:
  "transcript_text r = t \<Longrightarrow> result_speaker_count r = c \<Longrightarrow> duration_seconds r = d \<Longrightarrow>
   r = \<lparr>transcript_text = t, result_speaker_count = c, duration_seconds = d\<rparr>"
  by (cases r) simp

lemma merge_wordless_pipeline:
  assumes "transcribe_chunks env language chunks ([], st) = Inr (rs, st')"
    and "\<forall>r\<in>set rs. segments r = []"
  shows "snd (merge_transcript_chunks h rs)
           = \<lparr>transcript_text = [], result_speaker_count = 0, duration_seconds = 0\<rparr>"
proof -
  from pipeline_chunk_results [OF assms(1)] assms(2)
  have "\<forall>r\<in>set rs. speaker_count r = 0" by blast
  then have "insert 0 (speaker_count ` set rs) = {0}" by blast
  then have "Max (insert 0 (speaker_count ` set rs)) = 0" by (simp only: Max_singleton)
  then have "result_speaker_count (snd (merge_transcript_chunks h rs)) = 0"
    by (simp only: merge_speaker_count_Max)
  with merge_wordless(2,3) [OF assms(2), of h] show ?thesis
    by (intro transcript_result_eqI)
qed

text \<open>
  Claim C8.  For no chunk results the function returns the empty text, the speaker count 0
  and the duration 0.  So it does for the chunk results of a run in which no chunk has a
  word: \<open>transcribe_audio_chunk\<close> reports 0 speakers for a chunk without words.  The run
  then returns that result with the address of the upload, and no error.
\<close>

theorem merge_no_words:
  "snd (merge_transcript_chunks h [])
     = \<lparr>transcript_text = [], result_speaker_count = 0, duration_seconds = 0\<rparr>
   \<and> (transcribe_chunks env language chunks ([], st) = Inr (rs, st') \<and> (\<forall>r\<in>set rs. segments r = []) \<longrightarrow>
        snd (merge_transcript_chunks (objects st') rs)
          = \<lparr>transcript_text = [], result_speaker_count = 0, duration_seconds = 0\<rparr>)
   \<and> (upload_audio_to_gcs env audio_file filename = Inr uri
        \<and> convert_and_split_audio env audio_file = Inr chunks
        \<and> transcribe_chunks env language chunks ([], st) = Inr (rs, st')
        \<and> (\<forall>r\<in>set rs. segments r = []) \<longrightarrow>
        transcribe_audio_file env audio_file language filename st
          = Inr ((\<lparr>transcript_text = [], result_speaker_count = 0, duration_seconds = 0\<rparr>, uri), st'))"
proof (intro conjI impI)
  have "(\<forall>c\<in>set ([]::chunk_result list). segments c = [])" by simp
  from merge_wordless(2,3) [OF this, of h]
  show "snd (merge_transcript_chunks h [])
     = \<lparr>transcript_text = [], result_speaker_count = 0, duration_seconds = 0\<rparr>"
    by (intro transcript_result_eqI) (simp_all add: merge_speaker_count_Max)
next
  assume "transcribe_chunks env language chunks ([], st) = Inr (rs, st') \<and> (\<forall>r\<in>set rs. segments r = [])"
  then show "snd (merge_transcript_chunks (objects st') rs)
          = \<lparr>transcript_text = [], result_speaker_count = 0, duration_seconds = 0\<rparr>"
    using merge_wordless_pipeline by blast
next
  assume a: "upload_audio_to_gcs env audio_file filename = Inr uri
        \<and> convert_and_split_audio env audio_file = Inr chunks
        \<and> transcribe_chunks env language chunks ([], st) = Inr (rs, st')
        \<and> (\<forall>r\<in>set rs. segments r = [])"
  then have t: "transcribe_chunks env language chunks ([], st) = Inr (rs, st')"
    and e: "\<forall>r\<in>set rs. segments r = []" by simp_all
  have s: "snd (merge_transcript_chunks (objects st') rs)
          = \<lparr>transcript_text = [], result_speaker_count = 0, duration_seconds = 0\<rparr>"
    using t e by (rule merge_wordless_pipeline)
  have f: "fst (merge_transcript_chunks (objects st') rs) = objects st'"
    using e by (rule merge_wordless(1))
  from a show "transcribe_audio_file env audio_file language filename st
          = Inr ((\<lparr>transcript_text = [], result_speaker_count = 0, duration_seconds = 0\<rparr>, uri), st')"
    by (simp add: transcribe_audio_file_def case_prod_beta s f)
qed

lemma silent_chunk_results:
  "transcribe_chunks example_env ''en'' [short_recording] ([], start_state)
     = Inr ([\<lparr>segments = [], speaker_count = 0, transcript = []\<rparr>], start_state)"
  by (simp add: transcribe_audio_chunk_def example_env_def)

theorem merge_no_words_witness:
  "transcribe_chunks example_env ''en'' [short_recording] ([], start_state)
     = Inr ([\<lparr>segments = [], speaker_count = 0, transcript = []\<rparr>], start_state)
   \<and> snd (merge_transcript_chunks (objects start_state)
            [\<lparr>segments = [], speaker_count = 0, transcript = []\<rparr>])
       = \<lparr>transcript_text = [], result_speaker_count = 0, duration_seconds = 0\<rparr>
   \<and> transcribe_audio_file example_env short_recording ''en'' ''meeting.mp3'' start_state
       = Inr ((\<lparr>transcript_text = [], result_speaker_count = 0, duration_seconds = 0\<rparr>,
               ''gs://meeting-transcription-audio/audio/6f1c/meeting.mp3''), start_state)"
proof -
  let ?rs = "[\<lparr>segments = [], speaker_count = 0, transcript = []\<rparr>]"
  note c = silent_chunk_results
  have e: "\<forall>r\<in>set ?rs. segments r = []" by simp
  have u: "upload_audio_to_gcs example_env short_recording ''meeting.mp3''
      = Inr ''gs://meeting-transcription-audio/audio/6f1c/meeting.mp3''"
    by (simp add: upload_audio_to_gcs_def example_env_def)
  have v: "convert_and_split_audio example_env short_recording = Inr [short_recording]"
    by (simp add: convert_and_split_audio_def example_env_def short_recording_def
        MAX_CHUNK_DURATION_MS_def)
  note t = merge_no_words [where env = example_env and language = "''en''"
      and chunks = "[short_recording]" and st = start_state and rs = ?rs and st' = start_state
      and audio_file = short_recording and filename = "''meeting.mp3''"
      and uri = "''gs://meeting-transcription-audio/audio/6f1c/meeting.mp3''"]
  from t have "transcribe_chunks example_env ''en'' [short_recording] ([], start_state) = Inr (?rs, start_state)
        \<and> (\<forall>r\<in>set ?rs. segments r = []) \<longrightarrow>
        snd (merge_transcript_chunks (objects start_state) ?rs)
          = \<lparr>transcript_text = [], result_speaker_count = 0, duration_seconds = 0\<rparr>"
    by (rule conjunct1 [OF conjunct2])
  from this conjI [OF c e]
  have 1: "snd (merge_transcript_chunks (objects start_state) ?rs)
          = \<lparr>transcript_text = [], result_speaker_count = 0, duration_seconds = 0\<rparr>"
    by (rule mp)
  from t have "upload_audio_to_gcs example_env short_recording ''meeting.mp3''
          = Inr ''gs://meeting-transcription-audio/audio/6f1c/meeting.mp3''
        \<and> convert_and_split_audio example_env short_recording = Inr [short_recording]
        \<and> transcribe_chunks example_env ''en'' [short_recording] ([], start_state) = Inr (?rs, start_state)
        \<and> (\<forall>r\<in>set ?rs. segments r = []) \<longrightarrow>
        transcribe_audio_file example_env short_recording ''en'' ''meeting.mp3'' start_state
          = Inr ((\<lparr>transcript_text = [], result_speaker_count = 0, duration_seconds = 0\<rparr>,
                  ''gs://meeting-transcription-audio/audio/6f1c/meeting.mp3''), start_state)"
    by (rule conjunct2 [OF conjunct2])
  from this conjI [OF u conjI [OF v conjI [OF c e]]]
  have 2: "transcribe_audio_file example_env short_recording ''en'' ''meeting.mp3'' start_state
          = Inr ((\<lparr>transcript_text = [], result_speaker_count = 0, duration_seconds = 0\<rparr>,
                  ''gs://meeting-transcription-audio/audio/6f1c/meeting.mp3''), start_state)"
    by (rule mp)
  from c 1 2 show ?thesis by - (intro conjI; assumption)
qed

subsection \<open>The times stored by a run\<close>

text \<open>When the times in the answers of the speech service are floats, so are the times in
  the store that \<open>transcribe_audio_file\<close> passes to \<open>merge_transcript_chunks\<close>.\<close>

lemma collect_words_float:
  assumes "float_store (objects st)"
    and "\<forall>w\<in>set ws. is_double (wi_start_time w) \<and> is_double (wi_end_time w)"
  shows "float_store (objects (fst (collect_words ws (st, segs, n))))"
  using assms
proof (induction ws arbitrary: st segs n)
  case Nil
  then show ?case by simp
next
  case (Cons w ws)
  let ?st = "st\<lparr>objects := (objects st)(next_addr st := segment_of w), next_addr := Suc (next_addr st)\<rparr>"
  from Cons.prems have "float_store (objects ?st)"
    by (simp add: float_store_def segment_of_def)
  moreover from Cons.prems have "\<forall>w\<in>set ws. is_double (wi_start_time w) \<and> is_double (wi_end_time w)"
    by simp
  ultimately have "\<And>segs' n'. float_store (objects (fst (collect_words ws (?st, segs', n'))))"
    by (rule Cons.IH)
  then show ?case by (simp add: Let_def)
qed

lemma collect_results_float:
  assumes "collect_results response (st, segs, n) = Inr r"
    and "float_store (objects st)"
    and "\<forall>alts\<in>set response. \<forall>alt\<in>set alts. \<forall>w\<in>set alt.
           is_double (wi_start_time w) \<and> is_double (wi_end_time w)"
  shows "float_store (objects (fst r))"
  using assms
proof (induction response arbitrary: st segs n)
  case Nil
  then show ?case by auto
next
  case (Cons alts response)
  from Cons.prems(1) obtain alt rest where a: "alts = alt # rest"
    by (cases alts) simp_all
  obtain st1 segs1 n1 where c: "collect_words alt (st, segs, n) = (st1, segs1, n1)"
    by (cases "collect_words alt (st, segs, n)")
  from Cons.prems(3) a have w: "\<forall>w\<in>set alt. is_double (wi_start_time w) \<and> is_double (wi_end_time w)"
    by simp
  from collect_words_float [OF Cons.prems(2) w, of segs n] c have f: "float_store (objects st1)"
    by simp
  from Cons.prems(1) a c have r: "collect_results response (st1, segs1, n1) = Inr r" by simp
  from Cons.prems(3) have "\<forall>alts\<in>set response. \<forall>alt\<in>set alts. \<forall>w\<in>set alt.
           is_double (wi_start_time w) \<and> is_double (wi_end_time w)"
    by simp
  with r f show ?case by (rule Cons.IH)
qed

lemma transcribe_chunks_float:
  assumes "transcribe_chunks env language chunks (rs, st) = Inr (rs', st')"
    and "float_store (objects st)"
    and "\<And>chunk response. recognize env chunk language = Inr response \<Longrightarrow>
           \<forall>alts\<in>set response. \<forall>alt\<in>set alts. \<forall>w\<in>set alt.
             is_double (wi_start_time w) \<and> is_double (wi_end_time w)"
  shows "float_store (objects st')"
  using assms(1,2)
proof (induction chunks arbitrary: rs st)
  case Nil
  then show ?case by simp
next
  case (Cons c chunks)
  from Cons.prems(1) obtain p where "transcribe_audio_chunk env c language st = Inr p"
    by (cases "transcribe_audio_chunk env c language st") simp_all
  then obtain r st1 where t: "transcribe_audio_chunk env c language st = Inr (r, st1)"
    by (cases p) simp
  from t obtain response where R: "recognize env c language = Inr response"
    by (cases "recognize env c language") (simp_all add: transcribe_audio_chunk_def)
  from t R obtain q where Q: "collect_results response (st, [], 0) = Inr q"
    by (cases "collect_results response (st, [], 0)") (simp_all add: transcribe_audio_chunk_def)
  from t R Q have s: "st1 = fst q"
    by (cases q) (auto simp add: transcribe_audio_chunk_def)
  from collect_results_float [OF Q Cons.prems(2) assms(3) [OF R]] have "float_store (objects st1)"
    by (simp only: s)
  moreover from Cons.prems(1) t have "transcribe_chunks env language chunks (rs @ [r], st1) = Inr (rs', st')"
    by simp
  ultimately show ?case by (intro Cons.IH)
qed

end
